theory Spec2Isabelle
  imports Complex_Main "HOL-Library.AList" "HOL-Library.Multiset" "HOL-Library.Word"
begin

section \<open>Data model of the webhook registry (src/src/store.js)\<close>

text \<open>
  This theory embeds \<^verbatim>\<open>generateId\<close> and the class \<^verbatim>\<open>FileWebhookStore\<close>. The class
  \<^verbatim>\<open>MongoWebhookStore\<close> hands every operation to the database and is not embedded.
  The counters and times of a hook are integers; the limit of the feed and the counter
  that ends up on \<^verbatim>\<open>Object.prototype\<close> range over all JavaScript numbers. Every
  operation runs to its end before the next one starts, as the event loop has it.
\<close>

text \<open>
  Values that come out of \<^verbatim>\<open>JSON.parse\<close>. An array is a JavaScript object too, so it
  can carry named properties next to its elements (the second argument of \<open>JArr\<close>);
  \<^verbatim>\<open>JSON.parse\<close> itself never produces any.
\<close>

datatype json =
    JNull
  | JBool bool
  | JNum int
  | JStr string
  | JArr "json list" "(string \<times> json) list"
  | JObj "(string \<times> json) list"

text \<open>
  A JavaScript number as the store meets it where it need not be an integer: \<^verbatim>\<open>NaN\<close>, an
  infinity, or a finite value (a rational here).
\<close>

datatype js_number = NaN | Minus_infinity | Finite rat | Plus_infinity

type_synonym slug = string

text \<open>
  A delivery log entry. The source keeps \<open>timestamp\<close> as an ISO-8601 string and compares
  \<^verbatim>\<open>new Date(timestamp).getTime()\<close>; the model keeps that number of milliseconds.
\<close>

record entry =
  entry_id :: string
  timestamp :: int
  body :: string
  bodyPreview :: string
  isJson :: bool
  formatted :: "string option"
  byteSize :: nat

record hook =
  hook_id :: string
  slug :: string
  description :: string
  metadata :: json
  createdAt :: int
  lastHit :: "int option"
  hits :: int
  logs :: "entry list"

text \<open>The element type of the feed built by \<^verbatim>\<open>listRecentEntries\<close>.\<close>

record recent =
  r_slug :: string
  r_timestamp :: int
  r_body :: string
  r_bodyPreview :: string
  r_isJson :: bool
  r_formatted :: "string option"
  r_byteSize :: nat
  reference :: string

text \<open>
  Errors thrown by the store. Only the first two carry a \<^verbatim>\<open>statusCode\<close>; the others
  are the untyped errors of the JavaScript runtime and of \<^verbatim>\<open>fs\<close>.
\<close>

datatype errno = ENOENT | EIO

datatype error = Conflict | Not_found | Type_error | Syntax_error | Fs_error errno

fun statusCode :: "error \<Rightarrow> nat option" where
  "statusCode Conflict = Some 409"
| "statusCode Not_found = Some 404"
| "statusCode Type_error = None"
| "statusCode Syntax_error = None"
| "statusCode (Fs_error _) = None"

subsection \<open>The store object\<close>

text \<open>
  A call of \<^verbatim>\<open>persist()\<close> that has not finished: it awaits \<^verbatim>\<open>fs.mkdir\<close> first and only
  then serialises \<^verbatim>\<open>this.state\<close> and awaits \<^verbatim>\<open>fs.writeFile\<close> of that text.
\<close>

datatype task = Mkdir | Write "(slug \<times> hook) list"

text \<open>
  \<^verbatim>\<open>this.state.hooks[slug]\<close> is a property read on a plain object: it finds an own
  property, or else a member inherited from \<^verbatim>\<open>Object.prototype\<close>, or else
  \<^verbatim>\<open>undefined\<close>. The built-in members are functions, except \<^verbatim>\<open>__proto__\<close>, which reads
  as \<^verbatim>\<open>Object.prototype\<close> itself.
\<close>

definition object_prototype_keys :: "string list" where
  "object_prototype_keys =
     [''constructor'', ''__proto__'', ''hasOwnProperty'', ''isPrototypeOf'',
      ''propertyIsEnumerable'', ''toLocaleString'', ''toString'', ''valueOf'',
      ''__defineGetter__'', ''__defineSetter__'', ''__lookupGetter__'',
      ''__lookupSetter__'']"

text \<open>
  The store writes \<^verbatim>\<open>logs\<close>, \<^verbatim>\<open>hits\<close> and \<^verbatim>\<open>lastHit\<close> to whatever object such a read
  returns. This is the part of the runtime that these writes reach and that a later
  read or call depends on: \<open>foreign_logs\<close> are the built-in keys on whose value
  \<^verbatim>\<open>clearLogs\<close> has put a \<^verbatim>\<open>logs\<close> array (for \<^verbatim>\<open>__proto__\<close> that is \<^verbatim>\<open>Object.prototype.logs\<close>,
  which every object then inherits); \<open>proto_hits\<close> and \<open>proto_lastHit\<close> are
  \<^verbatim>\<open>Object.prototype.hits\<close> and \<^verbatim>\<open>Object.prototype.lastHit\<close>, \<open>None\<close> while they do not
  exist. \<open>Some None\<close> is a \<^verbatim>\<open>lastHit\<close> of \<^verbatim>\<open>null\<close>; a time is a non-empty string in the
  source, hence truthy.
\<close>

record runtime =
  foreign_logs :: "string set"
  proto_hits :: "js_number option"
  proto_lastHit :: "int option option"

text \<open>What an inherited member is: one of the built-in functions, \<^verbatim>\<open>Object.prototype\<close>
  itself, the array under \<^verbatim>\<open>Object.prototype.logs\<close>, or a number or string.\<close>

datatype member = Function_member | Prototype_object | Array_member | Primitive_member

definition truthy_number :: "js_number \<Rightarrow> bool" where
  "truthy_number n = (n \<noteq> NaN \<and> n \<noteq> Finite 0)"

text \<open>The truthy member that a plain object inherits under a key, if any.\<close>

definition inherited :: "'r runtime_scheme \<Rightarrow> string \<Rightarrow> member option" where
  "inherited rt k =
     (if k = ''__proto__'' then Some Prototype_object
      else if k \<in> set object_prototype_keys then Some Function_member
      else if k = ''logs'' then
        (if ''__proto__'' \<in> foreign_logs rt then Some Array_member else None)
      else if k = ''hits'' then
        (case proto_hits rt of
           None \<Rightarrow> None
         | Some n \<Rightarrow> if truthy_number n then Some Primitive_member else None)
      else if k = ''lastHit'' then
        (case proto_lastHit rt of Some (Some t) \<Rightarrow> Some Primitive_member | _ \<Rightarrow> None)
      else None)"

text \<open>A read whose result is only tested for truthiness and then used as the hook: an
  inherited member that is falsy counts as \<open>Undefined\<close>.\<close>

datatype 'a property = Own 'a | Inherited member | Undefined

definition property_read :: "'r runtime_scheme \<Rightarrow> (string \<times> 'a) list \<Rightarrow> string \<Rightarrow> 'a property" where
  "property_read rt ps k =
     (case map_of ps k of
        Some v \<Rightarrow> Own v
      | None \<Rightarrow> (case inherited rt k of Some m \<Rightarrow> Inherited m | None \<Rightarrow> Undefined))"

text \<open>\<^verbatim>\<open>undefined + 1\<close> and \<^verbatim>\<open>NaN + 1\<close> are \<^verbatim>\<open>NaN\<close>.\<close>

fun increment :: "js_number option \<Rightarrow> js_number" where
  "increment None = NaN"
| "increment (Some (Finite q)) = Finite (q + 1)"
| "increment (Some n) = n"

text \<open>
  The body of \<^verbatim>\<open>recordHit\<close> on an inherited member, up to \<^verbatim>\<open>hook.logs.unshift(entry)\<close>:
  the runtime afterwards and whether it got through. The assignments to \<^verbatim>\<open>hits\<close> and
  \<^verbatim>\<open>lastHit\<close> come first; in the strict code of a class an assignment to a property of
  a number or string throws, and \<^verbatim>\<open>unshift\<close> throws unless a \<^verbatim>\<open>logs\<close> array is visible on
  the member.
\<close>

definition hit_inherited ::
  "member \<Rightarrow> string \<Rightarrow> int \<Rightarrow> 'r runtime_scheme \<Rightarrow> 'r runtime_scheme \<times> bool" where
  "hit_inherited m k t rt =
     (case m of
        Function_member \<Rightarrow> (rt, k \<in> foreign_logs rt \<or> ''__proto__'' \<in> foreign_logs rt)
      | Prototype_object \<Rightarrow>
          (rt\<lparr>proto_hits := Some (increment (proto_hits rt)), proto_lastHit := Some (Some t)\<rparr>,
           ''__proto__'' \<in> foreign_logs rt)
      | Array_member \<Rightarrow> (rt, True)
      | Primitive_member \<Rightarrow> (rt, False))"

text \<open>The three assignments of \<^verbatim>\<open>clearLogs\<close> on an inherited member.\<close>

definition clear_inherited ::
  "member \<Rightarrow> string \<Rightarrow> 'r runtime_scheme \<Rightarrow> 'r runtime_scheme \<times> bool" where
  "clear_inherited m k rt =
     (case m of
        Function_member \<Rightarrow> (rt\<lparr>foreign_logs := insert k (foreign_logs rt)\<rparr>, True)
      | Prototype_object \<Rightarrow>
          (rt\<lparr>foreign_logs := insert k (foreign_logs rt), proto_hits := Some (Finite 0),
              proto_lastHit := Some None\<rparr>, True)
      | Array_member \<Rightarrow> (rt, True)
      | Primitive_member \<Rightarrow> (rt, False))"

text \<open>
  The fields of a \<^verbatim>\<open>FileWebhookStore\<close>, on top of the runtime it runs in. \<open>hooks\<close> is
  \<^verbatim>\<open>this.state.hooks\<close>, the own properties of that object in insertion order;
  \<open>writePromise\<close> says whether \<^verbatim>\<open>this.writePromise\<close> is set; \<open>running\<close> are the unfinished
  calls of \<^verbatim>\<open>persist()\<close>; \<open>disk\<close> is the registry held by the backing file.
\<close>

record store = runtime +
  hooks :: "(slug \<times> hook) list"
  logLimit :: int
  writePromise :: bool
  pendingFlush :: bool
  running :: "task list"
  disk :: "(slug \<times> hook) list"

subsection \<open>Coalesced flush\<close>

text \<open>
  \<^verbatim>\<open>persist()\<close> up to its first \<^verbatim>\<open>await\<close>. \<^verbatim>\<open>normalizeState\<close> leaves a state whose
  \<^verbatim>\<open>hooks\<close> is an object as it is, which is every state of this record.
\<close>

definition persist_start :: "store \<Rightarrow> store" where
  "persist_start st = st\<lparr>running := running st @ [Mkdir]\<rparr>"

definition schedulePersist :: "store \<Rightarrow> store" where
  "schedulePersist st =
     (if writePromise st then st\<lparr>pendingFlush := True\<rparr>
      else (persist_start st)\<lparr>writePromise := True\<rparr>)"

text \<open>The \<^verbatim>\<open>.finally\<close> callback of \<^verbatim>\<open>schedulePersist\<close>.\<close>

definition flush_finally :: "store \<Rightarrow> store" where
  "flush_finally st =
     (let st1 = st\<lparr>writePromise := False\<rparr>
      in if pendingFlush st1 then schedulePersist (st1\<lparr>pendingFlush := False\<rparr>) else st1)"

definition remove_task :: "nat \<Rightarrow> task list \<Rightarrow> task list" where
  "remove_task i ts = take i ts @ drop (Suc i) ts"

text \<open>
  \<^verbatim>\<open>fs.mkdir\<close> of the \<open>i\<close>-th unfinished \<^verbatim>\<open>persist()\<close> settles. On success the state is
  serialised now and the write starts; on failure the promise rejects, the error is
  logged and the \<^verbatim>\<open>.finally\<close> callback runs.
\<close>

definition mkdir_done :: "nat \<Rightarrow> bool \<Rightarrow> store \<Rightarrow> store" where
  "mkdir_done i ok st =
     (if i < length (running st) \<and> running st ! i = Mkdir then
        (if ok then st\<lparr>running := (running st)[i := Write (hooks st)]\<rparr>
         else flush_finally (st\<lparr>running := remove_task i (running st)\<rparr>))
      else st)"

text \<open>\<^verbatim>\<open>fs.writeFile\<close> of the \<open>i\<close>-th unfinished \<^verbatim>\<open>persist()\<close> settles.\<close>

definition write_done :: "nat \<Rightarrow> bool \<Rightarrow> store \<Rightarrow> store" where
  "write_done i ok st =
     (if i < length (running st) then
        (case running st ! i of
           Mkdir \<Rightarrow> st
         | Write snapshot \<Rightarrow>
             flush_finally
               (st\<lparr>running := remove_task i (running st),
                   disk := (if ok then snapshot else disk st)\<rparr>))
      else st)"

subsection \<open>Registry operations\<close>

text \<open>What \<^verbatim>\<open>getHook\<close> and \<^verbatim>\<open>clearLogs\<close> hand back: a hook record, or an object of the
  runtime that is no hook at all.\<close>

datatype returned = Record hook | Foreign

text \<open>
  \<^verbatim>\<open>JSON.parse(JSON.stringify(hook))\<close> rebuilds a record of this data model field by
  field, so the copy is the same value. A function has no JSON text, and parsing
  \<^verbatim>\<open>undefined\<close> throws; every other inherited member is copied like any value.
\<close>

definition getHook :: "store \<Rightarrow> slug \<Rightarrow> error + returned option" where
  "getHook st s =
     (case property_read st (hooks st) s of
        Undefined \<Rightarrow> Inr None
      | Own h \<Rightarrow> Inr (Some (Record h))
      | Inherited m \<Rightarrow> if m = Function_member then Inl Syntax_error else Inr (Some Foreign))"

text \<open>
  \<open>new_id\<close> is the result of \<^verbatim>\<open>generateId(10)\<close> and \<open>now\<close> the clock reading of
  \<^verbatim>\<open>new Date()\<close>.
\<close>

definition createHook ::
  "store \<Rightarrow> slug \<Rightarrow> string \<Rightarrow> json \<Rightarrow> string \<Rightarrow> int \<Rightarrow> store \<times> (error + hook)" where
  "createHook st s descr meta new_id now =
     (case property_read st (hooks st) s of
        Undefined \<Rightarrow>
          (let h = \<lparr>hook_id = new_id, slug = s, description = descr, metadata = meta,
                    createdAt = now, lastHit = None, hits = 0, logs = []\<rparr>
           in (schedulePersist (st\<lparr>hooks := AList.update s h (hooks st)\<rparr>), Inr h))
      | _ \<Rightarrow> (st, Inl Conflict))"

definition deleteHook :: "store \<Rightarrow> slug \<Rightarrow> store \<times> bool" where
  "deleteHook st s =
     (case property_read st (hooks st) s of
        Undefined \<Rightarrow> (st, False)
      | _ \<Rightarrow> (schedulePersist (st\<lparr>hooks := AList.delete s (hooks st)\<rparr>), True))"

text \<open>\<^verbatim>\<open>xs.slice(0, e)\<close> for an integer \<open>e\<close>: a negative end counts from the back.\<close>

definition slice0 :: "'a list \<Rightarrow> int \<Rightarrow> 'a list" where
  "slice0 xs e = (if e < 0 then take (nat (int (length xs) + e)) xs else take (nat e) xs)"

definition recordHit :: "store \<Rightarrow> slug \<Rightarrow> entry \<Rightarrow> store \<times> (error + entry)" where
  "recordHit st s e =
     (case property_read st (hooks st) s of
        Undefined \<Rightarrow> (st, Inl Not_found)
      | Own h \<Rightarrow>
          (let unshifted = e # logs h;
               kept = (if int (length unshifted) > logLimit st
                       then slice0 unshifted (logLimit st) else unshifted);
               h' = h\<lparr>hits := hits h + 1, lastHit := Some (timestamp e), logs := kept\<rparr>
           in (schedulePersist (st\<lparr>hooks := AList.update s h' (hooks st)\<rparr>), Inr e))
      | Inherited m \<Rightarrow>
          (let (st1, ok) = hit_inherited m s (timestamp e) st
           in if ok then (schedulePersist st1, Inr e) else (st1, Inl Type_error)))"

definition clearLogs :: "store \<Rightarrow> slug \<Rightarrow> store \<times> (error + returned)" where
  "clearLogs st s =
     (case property_read st (hooks st) s of
        Undefined \<Rightarrow> (st, Inl Not_found)
      | Own h \<Rightarrow>
          (let h' = h\<lparr>logs := [], hits := 0, lastHit := None\<rparr>
           in (schedulePersist (st\<lparr>hooks := AList.update s h' (hooks st)\<rparr>), Inr (Record h')))
      | Inherited m \<Rightarrow>
          (let (st1, ok) = clear_inherited m s st
           in if ok then (schedulePersist st1, Inr Foreign) else (st1, Inl Type_error)))"

text \<open>A run of deliveries to one slug; it stops at the first error, as the caller's
  \<^verbatim>\<open>await\<close> would.\<close>

fun recordHits :: "store \<Rightarrow> slug \<Rightarrow> entry list \<Rightarrow> store \<times> (error + unit)" where
  "recordHits st s [] = (st, Inr ())"
| "recordHits st s (e # es) =
     (case recordHit st s e of
        (st', Inl err) \<Rightarrow> (st', Inl err)
      | (st', Inr _) \<Rightarrow> recordHits st' s es)"

text \<open>The four mutating operations as data, and the store each of them leaves behind
  (also when it throws).\<close>

datatype mutation =
    Create slug string json string int
  | Delete slug
  | Hit slug entry
  | Clear slug

fun mutate :: "store \<Rightarrow> mutation \<Rightarrow> store" where
  "mutate st (Create s descr meta new_id now) = fst (createHook st s descr meta new_id now)"
| "mutate st (Delete s) = fst (deleteHook st s)"
| "mutate st (Hit s e) = fst (recordHit st s e)"
| "mutate st (Clear s) = fst (clearLogs st s)"

definition logs_bounded :: "store \<Rightarrow> bool" where
  "logs_bounded st = list_all (\<lambda>(k, h). int (length (logs h)) \<le> logLimit st) (hooks st)"

text \<open>The store as the constructor leaves it in a runtime it has not written to, and
  small concrete values to run the operations on.\<close>

definition new_store :: "int \<Rightarrow> store" where
  "new_store limit =
     \<lparr>foreign_logs = {}, proto_hits = None, proto_lastHit = None,
      hooks = [], logLimit = limit, writePromise = False, pendingFlush = False,
      running = [], disk = []\<rparr>"

definition sample_entry :: "int \<Rightarrow> entry" where
  "sample_entry t =
     \<lparr>entry_id = ''e'', timestamp = t, body = ''{}'', bodyPreview = ''{}'', isJson = True,
      formatted = Some ''{}'', byteSize = 2\<rparr>"

definition sample_hook :: "slug \<Rightarrow> entry list \<Rightarrow> hook" where
  "sample_hook s es =
     \<lparr>hook_id = ''AAAAAAAAAA'', slug = s, description = [], metadata = JObj [],
      createdAt = 0, lastHit = (case es of [] \<Rightarrow> None | e # _ \<Rightarrow> Some (timestamp e)),
      hits = int (length es), logs = es\<rparr>"

definition sample_store :: "int \<Rightarrow> entry list \<Rightarrow> store" where
  "sample_store limit es = (new_store limit)\<lparr>hooks := [(''email1'', sample_hook ''email1'' es)]\<rparr>"

subsection \<open>The recent-entries feed\<close>

text \<open>
  \<^verbatim>\<open>Object.values\<close> walks the own keys that are array indices first, in ascending
  numeric order, and the other keys after them in insertion order.
\<close>

definition index_value :: "string \<Rightarrow> nat" where
  "index_value k = foldl (\<lambda>n c. 10 * n + (of_char c - 48)) 0 k"

definition is_array_index :: "string \<Rightarrow> bool" where
  "is_array_index k =
     (k \<noteq> [] \<and> list_all (\<lambda>c. c \<in> set ''0123456789'') k \<and>
      (if hd k = CHR ''0'' then k = ''0'' else True) \<and> index_value k < 4294967295)"

definition object_values :: "(string \<times> 'a) list \<Rightarrow> 'a list" where
  "object_values ps =
     map snd (sort_key (\<lambda>p. index_value (fst p)) (filter (\<lambda>p. is_array_index (fst p)) ps)) @
     map snd (filter (\<lambda>p. \<not> is_array_index (fst p)) ps)"

definition to_recent :: "hook \<Rightarrow> entry \<Rightarrow> recent" where
  "to_recent h e =
     \<lparr>r_slug = slug h, r_timestamp = timestamp e, r_body = body e,
      r_bodyPreview = bodyPreview e, r_isJson = isJson e, r_formatted = formatted e,
      r_byteSize = byteSize e, reference = entry_id e\<rparr>"

text \<open>The argument of \<^verbatim>\<open>listRecentEntries\<close>: left out (or \<^verbatim>\<open>undefined\<close>), or given, and
  then the number that \<^verbatim>\<open>Number(limit)\<close> makes of it (\<^verbatim>\<open>NaN\<close> for anything that is not
  numeric).\<close>

datatype limit_arg = Absent | Num js_number

text \<open>\<^verbatim>\<open>a || b\<close> on numbers: \<^verbatim>\<open>0\<close> and \<^verbatim>\<open>NaN\<close> are falsy.\<close>

definition js_or :: "js_number \<Rightarrow> js_number \<Rightarrow> js_number" where
  "js_or a b = (if truthy_number a then a else b)"

fun js_less_eq :: "js_number \<Rightarrow> js_number \<Rightarrow> bool" where
  "js_less_eq NaN b = False"
| "js_less_eq a NaN = False"
| "js_less_eq Minus_infinity b = True"
| "js_less_eq a Plus_infinity = True"
| "js_less_eq (Finite a) (Finite b) = (a \<le> b)"
| "js_less_eq a b = False"

text \<open>\<^verbatim>\<open>Math.min\<close> and \<^verbatim>\<open>Math.max\<close> of two numbers; \<^verbatim>\<open>NaN\<close> wins.\<close>

definition math_min :: "js_number \<Rightarrow> js_number \<Rightarrow> js_number" where
  "math_min a b = (if a = NaN \<or> b = NaN then NaN else if js_less_eq a b then a else b)"

definition math_max :: "js_number \<Rightarrow> js_number \<Rightarrow> js_number" where
  "math_max a b = (if a = NaN \<or> b = NaN then NaN else if js_less_eq a b then b else a)"

text \<open>\<^verbatim>\<open>Math.max(1, Math.min(Number(limit) || 20, 100))\<close> with the default parameter
  \<^verbatim>\<open>limit = 20\<close>.\<close>

definition safeLimit :: "limit_arg \<Rightarrow> js_number" where
  "safeLimit l =
     math_max (Finite 1)
       (math_min (js_or (case l of Absent \<Rightarrow> Finite 20 | Num n \<Rightarrow> n) (Finite 20)) (Finite 100))"

text \<open>\<^verbatim>\<open>xs.slice(0, e)\<close> for any number \<open>e\<close>: the end is first made an integer by dropping
  the fraction, \<^verbatim>\<open>NaN\<close> counts as 0 and an infinity is cut to the ends of the list.\<close>

definition truncate_rat :: "rat \<Rightarrow> int" where
  "truncate_rat q = (if q < 0 then - \<lfloor>- q\<rfloor> else \<lfloor>q\<rfloor>)"

fun slice_to :: "'a list \<Rightarrow> js_number \<Rightarrow> 'a list" where
  "slice_to xs NaN = []"
| "slice_to xs Minus_infinity = []"
| "slice_to xs Plus_infinity = xs"
| "slice_to xs (Finite q) = slice0 xs (truncate_rat q)"

definition all_entries :: "store \<Rightarrow> recent list" where
  "all_entries st = concat (map (\<lambda>h. map (to_recent h) (logs h)) (object_values (hooks st)))"

text \<open>\<^verbatim>\<open>Array.prototype.sort\<close> is stable; the comparator orders by larger time first.\<close>

definition sorted_entries :: "store \<Rightarrow> recent list" where
  "sorted_entries st = sort_key (\<lambda>r. - r_timestamp r) (all_entries st)"

definition listRecentEntries :: "store \<Rightarrow> limit_arg \<Rightarrow> recent list" where
  "listRecentEntries st l = slice_to (sorted_entries st) (safeLimit l)"

text \<open>The limit as the specification words it: the number given, clamped to the range
  from 1 to 100.\<close>

definition clamped_limit :: "rat \<Rightarrow> rat" where
  "clamped_limit n = max 1 (min n 100)"

text \<open>The effective limit, case by case.\<close>

fun effective_limit :: "limit_arg \<Rightarrow> rat" where
  "effective_limit Absent = 20"
| "effective_limit (Num NaN) = 20"
| "effective_limit (Num Minus_infinity) = 1"
| "effective_limit (Num Plus_infinity) = 100"
| "effective_limit (Num (Finite n)) = (if n = 0 then 20 else clamped_limit n)"

section \<open>Start-up of the file variant\<close>

text \<open>
  What \<^verbatim>\<open>JSON.parse(raw || '{"hooks":{}}')\<close> makes of the text of the backing file: the
  empty text selects the default document, a text that is not JSON makes it throw, and
  any other text is the value it denotes.
\<close>

datatype file_text = Empty_text | Unparseable | Json_text json

record filesystem =
  directory :: bool
  contents :: "file_text option"
  faulty :: bool

definition readFile :: "filesystem \<Rightarrow> errno + file_text" where
  "readFile fs =
     (if faulty fs then Inl EIO
      else case contents fs of None \<Rightarrow> Inl ENOENT | Some t \<Rightarrow> Inr t)"

definition mkdir :: "filesystem \<Rightarrow> errno + filesystem" where
  "mkdir fs = (if faulty fs then Inl EIO else Inr (fs\<lparr>directory := True\<rparr>))"

definition writeFile :: "filesystem \<Rightarrow> file_text \<Rightarrow> errno + filesystem" where
  "writeFile fs t =
     (if faulty fs then Inl EIO
      else if \<not> directory fs then Inl ENOENT
      else Inr (fs\<lparr>contents := Some t\<rparr>))"

definition json_parse :: "file_text \<Rightarrow> json option" where
  "json_parse t =
     (case t of
        Empty_text \<Rightarrow> Some (JObj [(''hooks'', JObj [])])
      | Unparseable \<Rightarrow> None
      | Json_text v \<Rightarrow> Some v)"

text \<open>\<^verbatim>\<open>JSON.stringify\<close> writes the elements of an array and none of its named properties.\<close>

fun json_stringify :: "json \<Rightarrow> json" where
  "json_stringify (JArr xs ps) = JArr (map json_stringify xs) []"
| "json_stringify (JObj ps) = JObj (map (map_prod id json_stringify) ps)"
| "json_stringify v = v"

fun truthy :: "json \<Rightarrow> bool" where
  "truthy JNull = False"
| "truthy (JBool b) = b"
| "truthy (JNum n) = (n \<noteq> 0)"
| "truthy (JStr s) = (s \<noteq> [])"
| "truthy (JArr xs ps) = True"
| "truthy (JObj ps) = True"

text \<open>\<^verbatim>\<open>typeof v === 'object'\<close>.\<close>

fun typeof_object :: "json \<Rightarrow> bool" where
  "typeof_object JNull = True"
| "typeof_object (JArr xs ps) = True"
| "typeof_object (JObj ps) = True"
| "typeof_object v = False"

fun get_hooks :: "json \<Rightarrow> json option" where
  "get_hooks (JObj ps) = map_of ps ''hooks''"
| "get_hooks (JArr xs ps) = map_of ps ''hooks''"
| "get_hooks v = None"

fun set_hooks :: "json \<Rightarrow> json \<Rightarrow> json" where
  "set_hooks (JObj ps) v = JObj (AList.update ''hooks'' v ps)"
| "set_hooks (JArr xs ps) v = JArr xs (AList.update ''hooks'' v ps)"
| "set_hooks w v = w"

definition normalizeState :: "json \<Rightarrow> json" where
  "normalizeState rawState =
     (if \<not> truthy rawState \<or> \<not> typeof_object rawState then JObj [(''hooks'', JObj [])]
      else case get_hooks rawState of
             None \<Rightarrow> set_hooks rawState (JObj [])
           | Some h \<Rightarrow>
               if \<not> truthy h \<or> \<not> typeof_object h then set_hooks rawState (JObj [])
               else rawState)"

text \<open>\<^verbatim>\<open>persist()\<close> run to its end, as \<^verbatim>\<open>init\<close> awaits it.\<close>

definition persist :: "json \<Rightarrow> filesystem \<Rightarrow> filesystem \<times> (error + json)" where
  "persist state fs =
     (let state1 = normalizeState state
      in case mkdir fs of
           Inl e \<Rightarrow> (fs, Inl (Fs_error e))
         | Inr fs1 \<Rightarrow>
             (case writeFile fs1 (Json_text (json_stringify state1)) of
                Inl e \<Rightarrow> (fs1, Inl (Fs_error e))
              | Inr fs2 \<Rightarrow> (fs2, Inr state1)))"

text \<open>\<open>state\<close> is \<^verbatim>\<open>this.state\<close> when \<^verbatim>\<open>init\<close> is called; the result is the file system
  afterwards and either the error thrown or the new \<^verbatim>\<open>this.state\<close>.\<close>

definition init :: "json \<Rightarrow> filesystem \<Rightarrow> filesystem \<times> (error + json)" where
  "init state fs =
     (case readFile fs of
        Inr raw \<Rightarrow>
          (case json_parse raw of
             None \<Rightarrow> (fs, Inl Syntax_error)
           | Some v \<Rightarrow> (fs, Inr (normalizeState v)))
      | Inl ENOENT \<Rightarrow>
          (case mkdir fs of
             Inl e \<Rightarrow> (fs, Inl (Fs_error e))
           | Inr fs1 \<Rightarrow> persist (normalizeState state) fs1)
      | Inl e \<Rightarrow> (fs, Inl (Fs_error e)))"

definition empty_registry :: json where
  "empty_registry = JObj [(''hooks'', JObj [])]"

text \<open>The shape every operation of the store relies on: \<^verbatim>\<open>state.hooks\<close> is an object.\<close>

definition has_hooks_object :: "json \<Rightarrow> bool" where
  "has_hooks_object v =
     (case get_hooks v of None \<Rightarrow> False | Some h \<Rightarrow> truthy h \<and> typeof_object h)"

section \<open>The flush state machine\<close>

text \<open>
  What can happen to a store between two turns of the event loop: some code changes
  \<^verbatim>\<open>state.hooks\<close> and calls \<^verbatim>\<open>schedulePersist\<close>, one of the four mutating operations
  runs, or a file-system call of an unfinished \<^verbatim>\<open>persist()\<close> settles, successfully or
  not.
\<close>

datatype event =
    Mutate "(slug \<times> hook) list"
  | Operation mutation
  | MkdirDone nat bool
  | WriteDone nat bool

fun step :: "store \<Rightarrow> event \<Rightarrow> store" where
  "step st (Mutate hs) = schedulePersist (st\<lparr>hooks := hs\<rparr>)"
| "step st (Operation m) = mutate st m"
| "step st (MkdirDone i ok) = mkdir_done i ok st"
| "step st (WriteDone i ok) = write_done i ok st"





text \<open>
  What holds between two turns of the event loop: at most one \<^verbatim>\<open>persist()\<close> is
  unfinished, \<^verbatim>\<open>writePromise\<close> is set exactly while one is, the pending flag is only
  set during a flush, and a write whose text is no longer the current state has the
  pending flag set.
\<close>

definition flush_inv :: "store \<Rightarrow> bool" where
  "flush_inv st =
     (length (running st) \<le> 1 \<and>
      (writePromise st \<longleftrightarrow> running st \<noteq> []) \<and>
      (pendingFlush st \<longrightarrow> writePromise st) \<and>
      (case running st of
         [Write snapshot] \<Rightarrow> snapshot \<noteq> hooks st \<longrightarrow> pendingFlush st
       | _ \<Rightarrow> True))"

section \<open>Identifiers\<close>

type_synonym byte = "8 word"

definition base64url_alphabet :: string where
  "base64url_alphabet = ''ABCDEFGHIJKLMNOPQRSTUVWXYZabcdefghijklmnopqrstuvwxyz0123456789-_''"

text \<open>\<^verbatim>\<open>Buffer.toString('base64url')\<close>: three bytes give four 6-bit digits, a rest of one
  or two bytes gives two or three, and no padding is written.\<close>

fun sextets :: "byte list \<Rightarrow> nat list" where
  "sextets (a # b # c # rest) =
     [unat a div 4, (unat a mod 4) * 16 + unat b div 16,
      (unat b mod 16) * 4 + unat c div 64, unat c mod 64] @ sextets rest"
| "sextets [a, b] = [unat a div 4, (unat a mod 4) * 16 + unat b div 16, (unat b mod 16) * 4]"
| "sextets [a] = [unat a div 4, (unat a mod 4) * 16]"
| "sextets [] = []"

definition base64url :: "byte list \<Rightarrow> string" where
  "base64url bs = map (\<lambda>d. base64url_alphabet ! d) (sextets bs)"

text \<open>
  \<open>src\<close> is the stream of bytes that \<^verbatim>\<open>crypto.randomBytes\<close> hands out; each call takes the
  next \<open>length * 2\<close> of them. The first argument bounds the number of attempts, and
  \<open>None\<close> says that all of them ended in the retry branch.
\<close>

fun generateId :: "nat \<Rightarrow> nat \<Rightarrow> (nat \<Rightarrow> byte) \<Rightarrow> string option" where
  "generateId 0 len src = None"
| "generateId (Suc attempts) len src =
     (let bytes = map src [0..<len * 2];
          ident = take len (base64url bytes)
      in if length ident \<ge> len then Some ident
         else generateId attempts len (\<lambda>i. src (i + len * 2)))"

text \<open>Two streams of random bytes that differ in one place.\<close>

definition zero_source :: "nat \<Rightarrow> byte" where
  "zero_source i = 0"

definition other_source :: "nat \<Rightarrow> byte" where
  "other_source i = (if i = 19 then 1 else 0)"

section \<open>References handed to callers\<close>

text \<open>
  The operations above compute with values. Which object a caller holds afterwards
  needs the objects themselves: a heap of hook objects, \<^verbatim>\<open>state.hooks\<close> as a table from
  slug to the reference of its object, and the next unused reference. The nested
  \<^verbatim>\<open>logs\<close> and \<^verbatim>\<open>metadata\<close> objects are kept inside the hook object here.
\<close>

type_synonym ref = nat

record heap_store = runtime +
  objects :: "ref \<Rightarrow> hook"
  table :: "(slug \<times> ref) list"
  next_ref :: ref

datatype handle = Object ref | Foreign_object

definition allocate :: "heap_store \<Rightarrow> hook \<Rightarrow> heap_store \<times> ref" where
  "allocate hs h =
     (hs\<lparr>objects := (objects hs)(next_ref hs := h), next_ref := Suc (next_ref hs)\<rparr>,
      next_ref hs)"

text \<open>\<^verbatim>\<open>JSON.parse(JSON.stringify(hook))\<close> builds a new object.\<close>

definition getHook_ref :: "heap_store \<Rightarrow> slug \<Rightarrow> heap_store \<times> (error + handle option)" where
  "getHook_ref hs s =
     (case property_read hs (table hs) s of
        Undefined \<Rightarrow> (hs, Inr None)
      | Own r \<Rightarrow> (let (hs1, c) = allocate hs (objects hs r) in (hs1, Inr (Some (Object c))))
      | Inherited m \<Rightarrow>
          if m = Function_member then (hs, Inl Syntax_error)
          else (hs, Inr (Some Foreign_object)))"

text \<open>The promise of \<^verbatim>\<open>createHook\<close> resolves to \<^verbatim>\<open>hook\<close>, the object just stored.\<close>

definition createHook_ref ::
  "heap_store \<Rightarrow> slug \<Rightarrow> string \<Rightarrow> json \<Rightarrow> string \<Rightarrow> int \<Rightarrow> heap_store \<times> (error + ref)" where
  "createHook_ref hs s descr meta new_id now =
     (case property_read hs (table hs) s of
        Undefined \<Rightarrow>
          (let (hs1, r) = allocate hs
                 \<lparr>hook_id = new_id, slug = s, description = descr, metadata = meta,
                  createdAt = now, lastHit = None, hits = 0, logs = []\<rparr>
           in (hs1\<lparr>table := AList.update s r (table hs1)\<rparr>, Inr r))
      | _ \<Rightarrow> (hs, Inl Conflict))"

text \<open>\<^verbatim>\<open>clearLogs\<close> assigns to the fields of the stored object and returns that object.\<close>

definition clearLogs_ref :: "heap_store \<Rightarrow> slug \<Rightarrow> heap_store \<times> (error + handle)" where
  "clearLogs_ref hs s =
     (case property_read hs (table hs) s of
        Undefined \<Rightarrow> (hs, Inl Not_found)
      | Own r \<Rightarrow>
          (hs\<lparr>objects := (objects hs)(r := (objects hs r)\<lparr>logs := [], hits := 0, lastHit := None\<rparr>)\<rparr>,
           Inr (Object r))
      | Inherited m \<Rightarrow>
          (let (hs1, ok) = clear_inherited m s hs
           in if ok then (hs1, Inr Foreign_object) else (hs1, Inl Type_error)))"

text \<open>A caller assigns to a field of an object it holds a reference to.\<close>

definition caller_assign :: "ref \<Rightarrow> (hook \<Rightarrow> hook) \<Rightarrow> heap_store \<Rightarrow> heap_store" where
  "caller_assign r f hs = hs\<lparr>objects := (objects hs)(r := f (objects hs r))\<rparr>"

definition set_hits :: "int \<Rightarrow> hook \<Rightarrow> hook" where
  "set_hits n h = h\<lparr>hits := n\<rparr>"

text \<open>The registry that the reading operations see: each slug with the current value
  of its object.\<close>

definition registry_view :: "heap_store \<Rightarrow> (slug \<times> hook) list" where
  "registry_view hs = map (\<lambda>(k, r). (k, objects hs r)) (table hs)"

text \<open>Every reference in the table has been allocated, and no two slugs share an
  object.\<close>

definition well_allocated :: "heap_store \<Rightarrow> bool" where
  "well_allocated hs =
     (list_all (\<lambda>(k, r). r < next_ref hs) (table hs) \<and> distinct (map snd (table hs)))"

definition empty_heap :: heap_store where
  "empty_heap =
     \<lparr>foreign_logs = {}, proto_hits = None, proto_lastHit = None,
      objects = (\<lambda>r. sample_hook [] []), table = [], next_ref = 0\<rparr>"

section \<open>Verification\<close>

subsection \<open>Retention of delivery logs\<close>

lemma schedulePersist_fields [simp]:
  "hooks (schedulePersist st) = hooks st"
  "logLimit (schedulePersist st) = logLimit st"
  "foreign_logs (schedulePersist st) = foreign_logs st"
  "proto_hits (schedulePersist st) = proto_hits st"
  "proto_lastHit (schedulePersist st) = proto_lastHit st"
  "disk (schedulePersist st) = disk st"
  by (simp_all add: schedulePersist_def persist_start_def)

lemma inherited_cong:
  assumes "foreign_logs a = foreign_logs b" and "proto_hits a = proto_hits b"
    and "proto_lastHit a = proto_lastHit b"
  shows "inherited a k = inherited b k"
  unfolding inherited_def assms ..

lemma inherited_schedulePersist [simp]: "inherited (schedulePersist st) k = inherited st k"
  by (rule inherited_cong) simp_all

lemma inherited_hooks_update [simp]: "inherited (st\<lparr>hooks := hs\<rparr>) k = inherited st k"
  by (rule inherited_cong) simp_all

lemma hit_inherited_fields [simp]:
  "hooks (fst (hit_inherited m k t st)) = hooks st"
  "logLimit (fst (hit_inherited m k t st)) = logLimit st"
  "writePromise (fst (hit_inherited m k t st)) = writePromise st"
  "pendingFlush (fst (hit_inherited m k t st)) = pendingFlush st"
  "running (fst (hit_inherited m k t st)) = running st"
  "disk (fst (hit_inherited m k t st)) = disk st"
  by (cases m; simp add: hit_inherited_def)+

lemma clear_inherited_fields [simp]:
  "hooks (fst (clear_inherited m k st)) = hooks st"
  "logLimit (fst (clear_inherited m k st)) = logLimit st"
  "writePromise (fst (clear_inherited m k st)) = writePromise st"
  "pendingFlush (fst (clear_inherited m k st)) = pendingFlush st"
  "running (fst (clear_inherited m k st)) = running st"
  "disk (fst (clear_inherited m k st)) = disk st"
  by (cases m; simp add: clear_inherited_def)+

lemma property_read_own [simp]: "map_of hs s = Some h \<Longrightarrow> property_read rt hs s = Own h"
  by (simp add: property_read_def)

lemma property_read_Own_iff: "property_read rt hs s = Own h \<longleftrightarrow> map_of hs s = Some h"
  by (simp add: property_read_def split: option.splits)

lemma slice0_nonneg: "0 \<le> e \<Longrightarrow> slice0 xs e = take (nat e) xs"
  by (simp add: slice0_def)

lemma kept_take:
  "0 \<le> l \<Longrightarrow> (if int (length xs) > l then slice0 xs l else xs) = take (nat l) xs"
  by (simp add: slice0_def)

lemma recordHit_own:
  assumes "0 \<le> logLimit st" and "map_of (hooks st) s = Some h"
  shows "recordHit st s e =
    (schedulePersist (st\<lparr>hooks := AList.update s
        (h\<lparr>hits := hits h + 1, lastHit := Some (timestamp e),
           logs := take (nat (logLimit st)) (e # logs h)\<rparr>) (hooks st)\<rparr>), Inr e)"
  using assms unfolding recordHit_def Let_def by (simp add: slice0_nonneg del: take_Suc_Cons)

lemma take_Cons_take: "take n (x # take n ys) = take n (x # ys)"
  by (cases n) simp_all

lemma recordHits_own:
  assumes "0 \<le> logLimit st" and "map_of (hooks st) s = Some h"
  shows "\<exists>st'. recordHits st s es = (st', Inr ()) \<and> logLimit st' = logLimit st \<and>
     map_of (hooks st') s = Some (h\<lparr>hits := hits h + int (length es),
        lastHit := (if es = [] then lastHit h else Some (timestamp (last es))),
        logs := (if es = [] then logs h else take (nat (logLimit st)) (rev es @ logs h))\<rparr>)"
  using assms
proof (induction es arbitrary: st h)
  case Nil
  then show ?case by simp
next
  case (Cons e es)
  let ?h1 = "h\<lparr>hits := hits h + 1, lastHit := Some (timestamp e),
           logs := take (nat (logLimit st)) (e # logs h)\<rparr>"
  let ?st1 = "schedulePersist (st\<lparr>hooks := AList.update s ?h1 (hooks st)\<rparr>)"
  have step: "recordHit st s e = (?st1, Inr e)"
    using Cons.prems by (rule recordHit_own)
  have l1: "0 \<le> logLimit ?st1" and m1: "map_of (hooks ?st1) s = Some ?h1"
    using Cons.prems by (simp_all add: update_conv')
  from Cons.IH[OF l1 m1] obtain st' where
    r: "recordHits ?st1 s es = (st', Inr ())" and ll: "logLimit st' = logLimit ?st1" and
    m: "map_of (hooks st') s = Some (?h1\<lparr>hits := hits ?h1 + int (length es),
        lastHit := (if es = [] then lastHit ?h1 else Some (timestamp (last es))),
        logs := (if es = [] then logs ?h1 else take (nat (logLimit ?st1)) (rev es @ logs ?h1))\<rparr>)"
    by blast
  have "take (nat (logLimit st)) (rev es @ take (nat (logLimit st)) (e # logs h))
      = take (nat (logLimit st)) (rev es @ e # logs h)"
    by (simp add: min_def del: take_Suc_Cons) 
  then show ?case using step r ll m by (simp del: take_Suc_Cons)
qed

lemma list_all_update:
  "P (k, v) \<Longrightarrow> list_all P al \<Longrightarrow> list_all P (AList.update k v al)"
  by (induction al) auto

lemma list_all_delete: "list_all P al \<Longrightarrow> list_all P (AList.delete k al)"
  by (induction al) auto

lemma logs_bounded_schedulePersist [simp]:
  "logs_bounded (schedulePersist st) = logs_bounded st"
  by (simp add: logs_bounded_def)

lemma logs_bounded_update:
  "logs_bounded st \<Longrightarrow> int (length (logs h)) \<le> logLimit st \<Longrightarrow>
   logs_bounded (st\<lparr>hooks := AList.update s h (hooks st)\<rparr>)"
  by (simp add: logs_bounded_def list_all_update)

lemma logs_bounded_delete:
  "logs_bounded st \<Longrightarrow> logs_bounded (st\<lparr>hooks := AList.delete s (hooks st)\<rparr>)"
  by (simp add: logs_bounded_def list_all_delete)

lemma logs_bounded_cong:
  "hooks st' = hooks st \<Longrightarrow> logLimit st' = logLimit st \<Longrightarrow> logs_bounded st' = logs_bounded st"
  by (simp add: logs_bounded_def)

lemma logs_bounded_inherited [simp]:
  "logs_bounded (fst (hit_inherited m k t st)) = logs_bounded st"
  "logs_bounded (fst (clear_inherited m k st)) = logs_bounded st"
  by (rule logs_bounded_cong; simp)+

lemma logs_bounded_createHook:
  "0 \<le> logLimit st \<Longrightarrow> logs_bounded st \<Longrightarrow> logs_bounded (fst (createHook st s d m i now))"
  by (simp add: createHook_def Let_def logs_bounded_update split: property.splits)

lemma logs_bounded_deleteHook:
  "logs_bounded st \<Longrightarrow> logs_bounded (fst (deleteHook st s))"
  by (simp add: deleteHook_def logs_bounded_delete split: property.splits)

lemma logs_bounded_recordHit:
  assumes "0 \<le> logLimit st" and "logs_bounded st"
  shows "logs_bounded (fst (recordHit st s e))"
proof (cases "property_read st (hooks st) s")
  case (Own h)
  with assms show ?thesis
    by (auto simp: recordHit_def Let_def slice0_def intro!: logs_bounded_update)
next
  case (Inherited m)
  have "logs_bounded (fst (hit_inherited m s (timestamp e) st))" using assms(2) by simp
  with Inherited show ?thesis
    by (cases "hit_inherited m s (timestamp e) st") (simp add: recordHit_def)
next
  case Undefined
  with assms show ?thesis by (simp add: recordHit_def)
qed

lemma logs_bounded_clearLogs:
  assumes "0 \<le> logLimit st" and "logs_bounded st"
  shows "logs_bounded (fst (clearLogs st s))"
proof (cases "property_read st (hooks st) s")
  case (Own h)
  with assms show ?thesis by (simp add: clearLogs_def Let_def logs_bounded_update)
next
  case (Inherited m)
  have "logs_bounded (fst (clear_inherited m s st))" using assms(2) by simp
  with Inherited show ?thesis
    by (cases "clear_inherited m s st") (simp add: clearLogs_def)
next
  case Undefined
  with assms show ?thesis by (simp add: clearLogs_def)
qed

lemma logs_bounded_mutate:
  "0 \<le> logLimit st \<Longrightarrow> logs_bounded st \<Longrightarrow> logs_bounded (mutate st m)"
  by (cases m)
     (simp_all add: logs_bounded_createHook logs_bounded_deleteHook logs_bounded_recordHit
        logs_bounded_clearLogs)

text \<open>
  Claim C1. For a registered slug and a run of more deliveries than \<open>logLimit\<close> (a
  non-negative integer), every \<^verbatim>\<open>recordHit\<close> succeeds, and \<^verbatim>\<open>getHook\<close> then returns a
  record whose \<open>logs\<close> has exactly \<open>logLimit\<close> entries, namely the \<open>logLimit\<close> last
  delivered ones with the newest first, and whose \<open>hits\<close> has grown by the number of
  deliveries (so it is that number for a hook that started at zero). Every mutating
  operation keeps the logs of all hooks within \<open>logLimit\<close>, a new store has them within
  it, and a delivery brings the logs of its hook within it whatever they were.
\<close>

theorem recordHit_retention:
  assumes "0 \<le> logLimit st" and "map_of (hooks st) s = Some h"
    and "logLimit st < int (length es)"
  shows "(\<exists>st' h'. recordHits st s es = (st', Inr ()) \<and>
            getHook st' s = Inr (Some (Record h')) \<and>
            int (length (logs h')) = logLimit st \<and>
            logs h' = take (nat (logLimit st)) (rev es) \<and>
            hits h' = hits h + int (length es) \<and>
            (hits h = 0 \<longrightarrow> hits h' = int (length es))) \<and>
         (\<forall>m. logs_bounded st \<longrightarrow> logs_bounded (mutate st m)) \<and>
         logs_bounded (new_store (logLimit st)) \<and>
         (\<forall>e. \<exists>h1. map_of (hooks (mutate st (Hit s e))) s = Some h1 \<and>
                int (length (logs h1)) \<le> logLimit st)"
proof (intro conjI)
  from recordHits_own[OF assms(1,2), of es] obtain st' where
    r: "recordHits st s es = (st', Inr ())" and
    m: "map_of (hooks st') s = Some (h\<lparr>hits := hits h + int (length es),
        lastHit := (if es = [] then lastHit h else Some (timestamp (last es))),
        logs := (if es = [] then logs h else take (nat (logLimit st)) (rev es @ logs h))\<rparr>)"
    by blast
  have ne: "es \<noteq> []" using assms(1,3) by auto
  have len: "nat (logLimit st) \<le> length es" using assms(1,3) by linarith
  have tk: "take (nat (logLimit st)) (rev es @ logs h) = take (nat (logLimit st)) (rev es)"
    using len by simp
  show "\<exists>st' h'. recordHits st s es = (st', Inr ()) \<and>
            getHook st' s = Inr (Some (Record h')) \<and>
            int (length (logs h')) = logLimit st \<and>
            logs h' = take (nat (logLimit st)) (rev es) \<and>
            hits h' = hits h + int (length es) \<and>
            (hits h = 0 \<longrightarrow> hits h' = int (length es))"
    using r m ne tk len assms(1) by (simp add: getHook_def min_def)
next
  show "\<forall>m. logs_bounded st \<longrightarrow> logs_bounded (mutate st m)"
    using assms(1) by (simp add: logs_bounded_mutate)
next
  show "logs_bounded (new_store (logLimit st))"
    by (simp add: logs_bounded_def new_store_def)
next
  show "\<forall>e. \<exists>h1. map_of (hooks (mutate st (Hit s e))) s = Some h1 \<and>
                int (length (logs h1)) \<le> logLimit st"
    using assms(1) by (simp add: recordHit_own [OF assms(1,2)] update_conv')
qed

theorem recordHit_retention_witness:
  "(\<exists>st' h'. recordHits (sample_store 2 []) ''email1''
                [sample_entry 1, sample_entry 2, sample_entry 3] = (st', Inr ()) \<and>
            getHook st' ''email1'' = Inr (Some (Record h')) \<and>
            logs h' = [sample_entry 3, sample_entry 2] \<and> hits h' = 3) \<and>
   logs_bounded (sample_store 2 []) \<and>
   logs_bounded (mutate (sample_store 2 []) (Hit ''email1'' (sample_entry 1)))"
proof -
  let ?st = "sample_store 2 []"
  let ?es = "[sample_entry 1, sample_entry 2, sample_entry 3]"
  have ll: "logLimit ?st = 2" by (simp add: sample_store_def new_store_def)
  have hh: "hits (sample_hook ''email1'' []) = 0" by (simp add: sample_hook_def)
  have a: "0 \<le> logLimit ?st" by (simp add: ll)
  have b: "map_of (hooks ?st) ''email1'' = Some (sample_hook ''email1'' [])"
    by (simp add: sample_store_def)
  have c: "logLimit ?st < int (length ?es)" by (simp add: ll)
  have d: "logs_bounded ?st"
    by (simp add: logs_bounded_def sample_store_def new_store_def sample_hook_def)
  note th = recordHit_retention [OF a b c, unfolded ll hh]
  from th d have e: "logs_bounded (mutate ?st (Hit ''email1'' (sample_entry 1)))"
    by blast
  from th have "\<exists>st' h'. recordHits ?st ''email1'' ?es = (st', Inr ()) \<and>
            getHook st' ''email1'' = Inr (Some (Record h')) \<and>
            logs h' = [sample_entry 3, sample_entry 2] \<and> hits h' = 3"
    by (auto simp del: recordHits.simps)
  with d e show ?thesis by blast
qed

subsection \<open>Creating, resetting and deleting hooks\<close>

lemma property_read_Undefined_iff:
  "property_read rt ps k = Undefined \<longleftrightarrow> map_of ps k = None \<and> inherited rt k = None"
  by (simp add: property_read_def split: option.splits)

lemma property_read_Inherited_iff:
  "property_read rt ps k = Inherited m \<longleftrightarrow> map_of ps k = None \<and> inherited rt k = Some m"
  by (simp add: property_read_def split: option.splits)

lemma property_read_missing:
  "map_of ps k = None \<Longrightarrow> inherited rt k = None \<Longrightarrow> property_read rt ps k = Undefined"
  by (simp add: property_read_def)

lemma property_read_update_same [simp]: "property_read rt (AList.update k v ps) k = Own v"
  by (simp add: property_read_def update_conv')

lemma property_read_delete_same:
  "property_read rt (AList.delete k ps) k =
     (case inherited rt k of Some m \<Rightarrow> Inherited m | None \<Rightarrow> Undefined)"
  by (simp add: property_read_def delete_conv')

lemma record_update_same_hooks: "hooks st = hs \<Longrightarrow> st\<lparr>hooks := hs\<rparr> = st"
  by auto

lemma new_store_fields [simp]:
  "hooks (new_store limit) = []"
  "foreign_logs (new_store limit) = {}"
  "proto_hits (new_store limit) = None"
  "proto_lastHit (new_store limit) = None"
  by (simp_all add: new_store_def)

lemma inherited_new_store:
  "inherited (new_store limit) k =
     (if k = ''__proto__'' then Some Prototype_object
      else if k \<in> set object_prototype_keys then Some Function_member else None)"
  unfolding inherited_def new_store_fields by simp

lemma constructor_inherited:
  "inherited (new_store limit) ''constructor'' = Some Function_member"
  "inherited (schedulePersist (new_store limit)) ''constructor'' = Some Function_member"
  by (simp_all add: inherited_new_store object_prototype_keys_def)

lemma constructor_read:
  "property_read (new_store limit) [] ''constructor'' = Inherited Function_member"
  "property_read (schedulePersist (new_store limit)) [] ''constructor'' =
     Inherited Function_member"
  by (simp_all add: property_read_def constructor_inherited)

text \<open>
  Claim C2. When \<^verbatim>\<open>createHook\<close> succeeds for a slug that is not registered,
  \<^verbatim>\<open>getHook\<close> of that slug returns the new record: no hits, no last hit, no logs,
  the generated id, the given slug, description and metadata, and the creation time.
\<close>

theorem createHook_then_getHook:
  assumes "map_of (hooks st) s = None"
    and "createHook st s descr meta new_id now = (st', Inr h)"
  shows "getHook st' s = Inr (Some (Record h)) \<and>
         hits h = 0 \<and> lastHit h = None \<and> logs h = [] \<and>
         hook_id h = new_id \<and> slug h = s \<and> createdAt h = now \<and>
         description h = descr \<and> metadata h = meta"
  using assms
  by (auto simp: createHook_def getHook_def Let_def split: property.splits)

lemma createHook_succeeds:
  assumes "map_of (hooks st) s = None" and "inherited st s = None"
  shows "\<exists>st' h. createHook st s descr meta new_id now = (st', Inr h)"
  using assms by (simp add: createHook_def Let_def property_read_missing)

theorem createHook_then_getHook_witness:
  "\<exists>st' h. createHook (new_store 50) ''email1'' ''mail'' (JObj []) ''q2V5cJx0Aa'' 1700000000000
             = (st', Inr h) \<and>
           getHook st' ''email1'' = Inr (Some (Record h)) \<and>
           hits h = 0 \<and> lastHit h = None \<and> logs h = [] \<and> slug h = ''email1''"
proof -
  have a: "map_of (hooks (new_store 50)) ''email1'' = None"
    by (simp add: new_store_def)
  have "inherited (new_store 50) ''email1'' = None"
    by (simp add: inherited_new_store object_prototype_keys_def)
  from createHook_succeeds [OF a this] obtain st' h where
    c: "createHook (new_store 50) ''email1'' ''mail'' (JObj []) ''q2V5cJx0Aa'' 1700000000000
          = (st', Inr h)"
    by blast
  from createHook_then_getHook [OF a c] c show ?thesis by blast
qed

lemma createHook_conflict:
  assumes "map_of (hooks st) s = Some h"
  shows "createHook st s descr meta new_id now = (st, Inl Conflict)"
  using assms by (simp add: createHook_def)

lemma recordHit_not_found:
  assumes "map_of (hooks st) s = None" and "inherited st s = None"
  shows "recordHit st s e = (st, Inl Not_found)"
  using assms by (simp add: recordHit_def property_read_missing)

lemma clearLogs_not_found:
  assumes "map_of (hooks st) s = None" and "inherited st s = None"
  shows "clearLogs st s = (st, Inl Not_found)"
  using assms by (simp add: clearLogs_def property_read_missing)

text \<open>
  The store's own writes to \<^verbatim>\<open>Object.prototype\<close> change what later reads find. After
  \<^verbatim>\<open>clearLogs('__proto__')\<close> every plain object inherits a \<^verbatim>\<open>logs\<close> array, so the
  unregistered slug \<^verbatim>\<open>logs\<close> reads as that array, while \<^verbatim>\<open>hits\<close> (0) and \<^verbatim>\<open>lastHit\<close>
  (\<^verbatim>\<open>null\<close>) are inherited but falsy. After \<^verbatim>\<open>recordHit('__proto__', e)\<close>, which throws
  at \<^verbatim>\<open>unshift\<close> only after its two assignments, \<^verbatim>\<open>lastHit\<close> is inherited as a time
  and \<^verbatim>\<open>hits\<close> as \<^verbatim>\<open>NaN\<close>.
\<close>

lemma proto_read:
  "property_read (new_store limit) [] ''__proto__'' = Inherited Prototype_object"
  by (simp add: property_read_def inherited_new_store)

lemma clearLogs_proto:
  "clearLogs (new_store limit) ''__proto__'' =
     (schedulePersist ((new_store limit)\<lparr>foreign_logs := {''__proto__''},
        proto_hits := Some (Finite 0), proto_lastHit := Some None\<rparr>), Inr Foreign)"
  by (simp add: clearLogs_def proto_read clear_inherited_def)

lemma inherited_after_clearLogs_proto:
  "inherited (fst (clearLogs (new_store limit) ''__proto__'')) ''logs'' = Some Array_member"
  "inherited (fst (clearLogs (new_store limit) ''__proto__'')) ''hits'' = None"
  "inherited (fst (clearLogs (new_store limit) ''__proto__'')) ''lastHit'' = None"
  by (simp_all add: clearLogs_proto inherited_def object_prototype_keys_def truthy_number_def)

lemma after_clearLogs_proto:
  assumes "st = fst (clearLogs (new_store limit) ''__proto__'')"
  shows "getHook st ''logs'' = Inr (Some Foreign)"
    and "snd (createHook st ''logs'' descr meta new_id now) = Inl Conflict"
    and "snd (deleteHook st ''logs'') = True"
    and "snd (recordHit st ''logs'' e) = Inr e"
    and "getHook st ''hits'' = Inr None"
proof -
  have h: "hooks st = []" by (simp add: assms clearLogs_proto)
  have i: "inherited st ''logs'' = Some Array_member" "inherited st ''hits'' = None"
    by (simp_all add: assms inherited_after_clearLogs_proto)
  have l: "property_read st (hooks st) ''logs'' = Inherited Array_member"
    by (simp add: property_read_def h i)
  have n: "property_read st (hooks st) ''hits'' = Undefined"
    by (simp add: property_read_def h i)
  show "getHook st ''logs'' = Inr (Some Foreign)" by (simp add: getHook_def l)
  show "snd (createHook st ''logs'' descr meta new_id now) = Inl Conflict"
    by (simp add: createHook_def l)
  show "snd (deleteHook st ''logs'') = True" by (simp add: deleteHook_def l)
  show "snd (recordHit st ''logs'' e) = Inr e"
    by (simp add: recordHit_def l hit_inherited_def)
  show "getHook st ''hits'' = Inr None" by (simp add: getHook_def n)
qed

lemma recordHit_proto:
  "recordHit (new_store limit) ''__proto__'' e =
     ((new_store limit)\<lparr>proto_hits := Some NaN, proto_lastHit := Some (Some (timestamp e))\<rparr>,
      Inl Type_error)"
  by (simp add: recordHit_def proto_read hit_inherited_def)

lemma after_recordHit_proto:
  assumes "st = fst (recordHit (new_store limit) ''__proto__'' e)"
  shows "getHook st ''lastHit'' = Inr (Some Foreign)"
    and "snd (recordHit st ''lastHit'' e') = Inl Type_error"
    and "snd (clearLogs st ''lastHit'') = Inl Type_error"
    and "getHook st ''hits'' = Inr None"
proof -
  have h: "hooks st = []" by (simp add: assms recordHit_proto)
  have i: "inherited st ''lastHit'' = Some Primitive_member" "inherited st ''hits'' = None"
    by (simp_all add: assms recordHit_proto inherited_def object_prototype_keys_def
        truthy_number_def)
  have l: "property_read st (hooks st) ''lastHit'' = Inherited Primitive_member"
    by (simp add: property_read_def h i)
  have n: "property_read st (hooks st) ''hits'' = Undefined"
    by (simp add: property_read_def h i)
  show "getHook st ''lastHit'' = Inr (Some Foreign)" by (simp add: getHook_def l)
  show "snd (recordHit st ''lastHit'' e') = Inl Type_error"
    by (simp add: recordHit_def l hit_inherited_def)
  show "snd (clearLogs st ''lastHit'') = Inl Type_error"
    by (simp add: clearLogs_def l clear_inherited_def)
  show "getHook st ''hits'' = Inr None" by (simp add: getHook_def n)
qed

text \<open>
  Claim C3, at a slug that is not registered but names a member of \<^verbatim>\<open>Object.prototype\<close>:
  \<^verbatim>\<open>clearLogs\<close> does not throw; it schedules a flush and returns the runtime object, and
  \<^verbatim>\<open>recordHit\<close> throws an error that carries no status code. For every
  unregistered slug under which the registry object inherits no truthy member, both
  throw the not-found error and leave the store as it was
  (\<open>recordHit_not_found\<close>, \<open>clearLogs_not_found\<close>), and \<^verbatim>\<open>createHook\<close> on a registered slug
  throws the conflict error and leaves it as it was (\<open>createHook_conflict\<close>).
\<close>

theorem unregistered_inherited_key_no_404:
  "map_of (hooks (new_store 50)) ''constructor'' = None \<and>
   clearLogs (new_store 50) ''constructor'' =
     (schedulePersist ((new_store 50)\<lparr>foreign_logs := {''constructor''}\<rparr>), Inr Foreign) \<and>
   recordHit (new_store 50) ''constructor'' (sample_entry 1) = (new_store 50, Inl Type_error) \<and>
   statusCode Type_error = None"
  by (simp add: clearLogs_def recordHit_def constructor_read hit_inherited_def
      clear_inherited_def)

text \<open>
  Claim C4. For a registered slug, \<^verbatim>\<open>clearLogs\<close> called twice in a row returns the same
  record both times, with no hits, no last hit and no logs, and with the id, slug,
  description, metadata and creation time of the record it started from; the second
  call leaves the registry as the first one left it.
\<close>

theorem clearLogs_idempotent:
  assumes "map_of (hooks st) s = Some h"
  shows "\<exists>st1 st2 h0. clearLogs st s = (st1, Inr (Record h0)) \<and>
           clearLogs st1 s = (st2, Inr (Record h0)) \<and>
           hooks st2 = hooks st1 \<and> getHook st2 s = Inr (Some (Record h0)) \<and>
           hits h0 = 0 \<and> lastHit h0 = None \<and> logs h0 = [] \<and>
           hook_id h0 = hook_id h \<and> slug h0 = slug h \<and> description h0 = description h \<and>
           metadata h0 = metadata h \<and> createdAt h0 = createdAt h"
  using assms by (simp add: clearLogs_def getHook_def Let_def update_conv')

theorem clearLogs_idempotent_witness:
  "\<exists>st1 st2 h0.
     clearLogs (sample_store 50 [sample_entry 1]) ''email1'' = (st1, Inr (Record h0)) \<and>
     clearLogs st1 ''email1'' = (st2, Inr (Record h0)) \<and>
     hits h0 = 0 \<and> lastHit h0 = None \<and> logs h0 = [] \<and> hook_id h0 = ''AAAAAAAAAA''"
proof -
  have a: "map_of (hooks (sample_store 50 [sample_entry 1])) ''email1''
             = Some (sample_hook ''email1'' [sample_entry 1])"
    by (simp add: sample_store_def)
  have b: "hook_id (sample_hook ''email1'' [sample_entry 1]) = ''AAAAAAAAAA''"
    by (simp add: sample_hook_def)
  from clearLogs_idempotent [OF a] show ?thesis unfolding b by blast
qed

lemma deleteHook_unregistered:
  assumes "map_of (hooks st) s = None" and "inherited st s = None"
  shows "deleteHook st s = (st, False)"
  using assms by (simp add: deleteHook_def property_read_missing)

lemma deleteHook_registered:
  assumes "map_of (hooks st) s = Some h"
  shows "deleteHook st s = (schedulePersist (st\<lparr>hooks := AList.delete s (hooks st)\<rparr>), True)"
    and "map_of (hooks (fst (deleteHook st s))) s = None"
    and "inherited st s = None \<Longrightarrow> getHook (fst (deleteHook st s)) s = Inr None"
    and "inherited st s = None \<Longrightarrow>
         \<exists>st' h'. createHook (fst (deleteHook st s)) s descr meta new_id now = (st', Inr h') \<and>
            getHook st' s = Inr (Some (Record h')) \<and> hits h' = 0 \<and> logs h' = []"
  using assms
  by (simp_all add: deleteHook_def getHook_def createHook_def Let_def property_read_delete_same
      delete_conv')

text \<open>
  Claim C5, at a slug that is not registered but names a member of \<^verbatim>\<open>Object.prototype\<close>:
  \<^verbatim>\<open>deleteHook\<close> returns true and schedules a flush, a following \<^verbatim>\<open>getHook\<close> throws and
  a following \<^verbatim>\<open>createHook\<close> is refused as a conflict. For every slug under which the
  registry object inherits no truthy member, the operation does what the claim says
  (\<open>deleteHook_unregistered\<close>, \<open>deleteHook_registered\<close>).
\<close>

theorem deleteHook_inherited_key:
  "map_of (hooks (new_store 50)) ''constructor'' = None \<and>
   deleteHook (new_store 50) ''constructor'' = (schedulePersist (new_store 50), True) \<and>
   getHook (schedulePersist (new_store 50)) ''constructor'' = Inl Syntax_error \<and>
   createHook (schedulePersist (new_store 50)) ''constructor'' [] (JObj []) ''AAAAAAAAAA'' 0
     = (schedulePersist (new_store 50), Inl Conflict)"
  by (simp add: deleteHook_def getHook_def createHook_def constructor_read
      record_update_same_hooks)

subsection \<open>The recent-entries feed\<close>

lemma mset_object_values: "mset (object_values ps) = mset (map snd ps)"
proof -
  let ?P = "\<lambda>p. is_array_index (fst p)"
  have "mset (object_values ps) =
      image_mset snd (filter_mset ?P (mset ps)) +
      image_mset snd (filter_mset (\<lambda>p. \<not> ?P p) (mset ps))"
    by (simp add: object_values_def)
  also have "\<dots> = image_mset snd (filter_mset ?P (mset ps) +
      filter_mset (\<lambda>p. \<not> ?P p) (mset ps))"
    by (rule image_mset_union [symmetric])
  also have "filter_mset ?P (mset ps) + filter_mset (\<lambda>p. \<not> ?P p) (mset ps) = mset ps"
    by (rule multiset_partition [symmetric])
  finally show ?thesis by simp
qed

lemma mset_concat_map: "mset (concat (map f xs)) = (\<Sum>x\<in>#mset xs. mset (f x))"
  by (induction xs) simp_all

lemma mset_all_entries:
  "mset (all_entries st) =
     mset (concat (map (\<lambda>p. map (to_recent (snd p)) (logs (snd p))) (hooks st)))"
proof -
  have "mset (all_entries st) = (\<Sum>h\<in>#mset (object_values (hooks st)). mset (map (to_recent h) (logs h)))"
    unfolding all_entries_def by (rule mset_concat_map)
  also have "\<dots> = (\<Sum>h\<in>#mset (map snd (hooks st)). mset (map (to_recent h) (logs h)))"
    by (simp only: mset_object_values)
  also have "\<dots> = mset (concat (map (\<lambda>p. map (to_recent (snd p)) (logs (snd p))) (hooks st)))"
    by (simp add: mset_concat_map image_mset.compositionality comp_def)
  finally show ?thesis .
qed

lemma sorted_entries_descending:
  "sorted_wrt (\<lambda>a b. r_timestamp b \<le> r_timestamp a) (sorted_entries st)"
proof -
  have "sorted (map (\<lambda>r. - r_timestamp r) (sorted_entries st))"
    unfolding sorted_entries_def by (rule sorted_sort_key)
  then show ?thesis by (simp add: sorted_map)
qed

lemma safeLimit_effective: "safeLimit l = Finite (effective_limit l)"
proof (cases l)
  case Absent
  then show ?thesis
    by (simp add: safeLimit_def js_or_def truthy_number_def math_min_def math_max_def)
next
  case (Num n)
  then show ?thesis
    by (cases n)
       (auto simp: safeLimit_def js_or_def truthy_number_def math_min_def math_max_def
          clamped_limit_def)
qed

lemma effective_limit_range: "1 \<le> effective_limit l \<and> effective_limit l \<le> 100"
proof (cases l)
  case Absent
  then show ?thesis by simp
next
  case (Num n)
  then show ?thesis by (cases n) (simp_all add: clamped_limit_def)
qed

lemma listRecentEntries_take:
  "listRecentEntries st l = take (nat \<lfloor>effective_limit l\<rfloor>) (sorted_entries st)"
proof -
  have "1 \<le> effective_limit l" using effective_limit_range by blast
  then have "\<not> effective_limit l < 0" "0 \<le> \<lfloor>effective_limit l\<rfloor>" by simp_all
  then show ?thesis
    by (simp add: listRecentEntries_def safeLimit_effective truncate_rat_def slice0_def)
qed

text \<open>
  Claim C6, amended. The log entries of all hooks, sorted, are in descending order of
  time as a whole and are exactly the entries of all hooks. \<^verbatim>\<open>listRecentEntries\<close> returns
  the first entries of that list, as many as the effective limit says after its fraction
  is dropped. The effective limit is 20 when the argument is absent, zero or not a
  number, and the argument clamped to the range from 1 to 100 otherwise; it always lies
  in that range.
\<close>

theorem listRecentEntries_feed:
  "listRecentEntries st l = take (nat \<lfloor>effective_limit l\<rfloor>) (sorted_entries st) \<and>
   safeLimit l = Finite (effective_limit l) \<and>
   1 \<le> effective_limit l \<and> effective_limit l \<le> 100 \<and>
   sorted_wrt (\<lambda>a b. r_timestamp b \<le> r_timestamp a) (sorted_entries st) \<and>
   sorted_wrt (\<lambda>a b. r_timestamp b \<le> r_timestamp a) (listRecentEntries st l) \<and>
   mset (sorted_entries st) =
     mset (concat (map (\<lambda>p. map (to_recent (snd p)) (logs (snd p))) (hooks st)))"
proof -
  have b: "sorted_wrt (\<lambda>a b. r_timestamp b \<le> r_timestamp a) (listRecentEntries st l)"
    unfolding listRecentEntries_take by (rule sorted_wrt_take) (rule sorted_entries_descending)
  have c: "mset (sorted_entries st) =
     mset (concat (map (\<lambda>p. map (to_recent (snd p)) (logs (snd p))) (hooks st)))"
    by (simp add: sorted_entries_def mset_all_entries)
  from b c listRecentEntries_take [of st l] safeLimit_effective [of l]
    effective_limit_range [of l] sorted_entries_descending [of st]
  show ?thesis by blast
qed

lemma sample_feed:
  "sorted_entries (sample_store 50 [sample_entry 2, sample_entry 1]) =
     [to_recent (sample_hook ''email1'' [sample_entry 2, sample_entry 1]) (sample_entry 2),
      to_recent (sample_hook ''email1'' [sample_entry 2, sample_entry 1]) (sample_entry 1)]"
  by (simp add: sorted_entries_def all_entries_def object_values_def is_array_index_def
      sample_store_def new_store_def sample_hook_def to_recent_def sample_entry_def)

text \<open>
  Claim C6 as stated fails for the limit 0: clamping 0 into the range from 1 to 100
  gives 1, and the feed of a store with two entries has two.
\<close>

theorem listRecentEntries_zero_counterexample:
  "listRecentEntries (sample_store 50 [sample_entry 2, sample_entry 1]) (Num (Finite 0)) \<noteq>
   take (nat \<lfloor>clamped_limit 0\<rfloor>)
     (sorted_entries (sample_store 50 [sample_entry 2, sample_entry 1]))"
  by (simp add: listRecentEntries_take clamped_limit_def sample_feed)

theorem listRecentEntries_feed_witness:
  "listRecentEntries (sample_store 50 [sample_entry 2, sample_entry 1]) (Num (Finite 0)) =
     [to_recent (sample_hook ''email1'' [sample_entry 2, sample_entry 1]) (sample_entry 2),
      to_recent (sample_hook ''email1'' [sample_entry 2, sample_entry 1]) (sample_entry 1)] \<and>
   listRecentEntries (sample_store 50 [sample_entry 2, sample_entry 1]) (Num (Finite (3 / 2))) =
     [to_recent (sample_hook ''email1'' [sample_entry 2, sample_entry 1]) (sample_entry 2)] \<and>
   safeLimit (Num (Finite 0)) = Finite 20 \<and> safeLimit (Num (Finite (- 5))) = Finite 1 \<and>
   safeLimit (Num (Finite 250)) = Finite 100 \<and> safeLimit Absent = Finite 20 \<and>
   safeLimit (Num NaN) = Finite 20"
proof -
  let ?st = "sample_store 50 [sample_entry 2, sample_entry 1]"
  have f: "\<lfloor>3 / 2 :: rat\<rfloor> = 1" by (rule floor_unique) simp_all
  have "listRecentEntries ?st (Num (Finite 0)) =
     [to_recent (sample_hook ''email1'' [sample_entry 2, sample_entry 1]) (sample_entry 2),
      to_recent (sample_hook ''email1'' [sample_entry 2, sample_entry 1]) (sample_entry 1)]"
    using listRecentEntries_feed [of ?st "Num (Finite 0)"] by (simp add: sample_feed)
  moreover have "listRecentEntries ?st (Num (Finite (3 / 2))) =
     [to_recent (sample_hook ''email1'' [sample_entry 2, sample_entry 1]) (sample_entry 2)]"
    using listRecentEntries_feed [of ?st "Num (Finite (3 / 2))"]
    by (simp add: sample_feed clamped_limit_def f)
  moreover have "safeLimit (Num (Finite 0)) = Finite 20 \<and>
   safeLimit (Num (Finite (- 5))) = Finite 1 \<and>
   safeLimit (Num (Finite 250)) = Finite 100 \<and> safeLimit Absent = Finite 20 \<and>
   safeLimit (Num NaN) = Finite 20"
    using listRecentEntries_feed [of ?st "Num (Finite 0)"]
      listRecentEntries_feed [of ?st "Num (Finite (- 5))"]
      listRecentEntries_feed [of ?st "Num (Finite 250)"]
      listRecentEntries_feed [of ?st "Absent"]
      listRecentEntries_feed [of ?st "Num NaN"]
    by (simp add: clamped_limit_def)
  ultimately show ?thesis by blast
qed

subsection \<open>Coalesced flushes\<close>






lemma flush_inv_cong:
  assumes "running st' = running st" and "writePromise st' = writePromise st"
    and "pendingFlush st' = pendingFlush st" and "hooks st' = hooks st"
  shows "flush_inv st' = flush_inv st"
  unfolding flush_inv_def assms ..

lemma flush_inv_inherited [simp]:
  "flush_inv (fst (hit_inherited m k t st)) = flush_inv st"
  "flush_inv (fst (clear_inherited m k st)) = flush_inv st"
  by (rule flush_inv_cong; simp)+






















subsection \<open>Start-up\<close>

lemma get_hooks_set_hooks:
  "truthy v \<Longrightarrow> typeof_object v \<Longrightarrow> get_hooks (set_hooks v h) = Some h"
  by (cases v) (simp_all add: update_conv')

lemma has_hooks_object_normalizeState: "has_hooks_object (normalizeState v)"
  by (auto simp: normalizeState_def has_hooks_object_def get_hooks_set_hooks
      split: option.splits)

lemma normalizeState_shaped: "has_hooks_object v \<Longrightarrow> normalizeState v = v"
  by (cases v) (auto simp: normalizeState_def has_hooks_object_def split: option.splits)

lemma normalizeState_empty_registry [simp]: "normalizeState empty_registry = empty_registry"
  by (simp add: normalizeState_def empty_registry_def)

lemma json_stringify_empty_registry [simp]: "json_stringify empty_registry = empty_registry"
  by (simp add: empty_registry_def)

lemma init_absent:
  assumes "\<not> faulty fs" and "contents fs = None"
  shows "init empty_registry fs =
     (fs\<lparr>directory := True, contents := Some (Json_text empty_registry)\<rparr>, Inr empty_registry)"
  using assms
  by (simp add: init_def readFile_def mkdir_def persist_def writeFile_def Let_def)

lemma init_parsed:
  assumes "\<not> faulty fs" and "contents fs = Some t" and "json_parse t = Some v"
  shows "init state fs = (fs, Inr (normalizeState v))"
  using assms by (simp add: init_def readFile_def)

lemma init_unparsed:
  assumes "\<not> faulty fs" and "contents fs = Some t" and "json_parse t = None"
  shows "init state fs = (fs, Inl Syntax_error)"
  using assms by (simp add: init_def readFile_def)

text \<open>
  Claim C7 as stated fails for a readable file whose text is not JSON: \<^verbatim>\<open>init\<close> throws
  the parse error and normalizes nothing.
\<close>

theorem init_malformed_counterexample:
  "init empty_registry \<lparr>directory = True, contents = Some Unparseable, faulty = False\<rparr> =
     (\<lparr>directory = True, contents = Some Unparseable, faulty = False\<rparr>, Inl Syntax_error)"
  by (simp add: init_def readFile_def json_parse_def)

lemma normalizeState_not_object:
  "\<not> truthy v \<or> \<not> typeof_object v \<Longrightarrow> normalizeState v = empty_registry"
  by (auto simp: normalizeState_def empty_registry_def)

lemma normalizeState_repairs:
  assumes "truthy v" and "typeof_object v" and "\<not> has_hooks_object v"
  shows "normalizeState v = set_hooks v (JObj [])"
  using assms by (auto simp: normalizeState_def has_hooks_object_def split: option.splits)

text \<open>
  Claim C7, amended. When the file is absent and the file system works, \<^verbatim>\<open>init\<close>
  creates the directory, keeps the empty registry and writes it out. When the file is
  readable and its text is empty or valid JSON, \<^verbatim>\<open>init\<close> succeeds with the normalized
  value: a value that is not an object becomes the empty registry; an object or array
  whose \<^verbatim>\<open>hooks\<close> is missing or is not an object gets an empty object under \<^verbatim>\<open>hooks\<close> and
  keeps its other members; a value that already has an object under \<^verbatim>\<open>hooks\<close> is kept as
  it is. In each case \<^verbatim>\<open>hooks\<close> is an object afterwards. When the text is not valid JSON,
  \<^verbatim>\<open>init\<close> fails with the parse error.
\<close>

theorem init_normalizes:
  "(\<not> faulty fs \<and> contents fs = None \<longrightarrow>
      init empty_registry fs =
        (fs\<lparr>directory := True, contents := Some (Json_text empty_registry)\<rparr>,
         Inr empty_registry)) \<and>
   (\<not> faulty fs \<and> contents fs = Some t \<and> json_parse t = Some v \<longrightarrow>
      init state fs = (fs, Inr (normalizeState v)) \<and>
      has_hooks_object (normalizeState v) \<and>
      (\<not> truthy v \<or> \<not> typeof_object v \<longrightarrow> normalizeState v = JObj [(''hooks'', JObj [])]) \<and>
      (\<forall>ps. v = JObj ps \<and> \<not> has_hooks_object v \<longrightarrow>
         normalizeState v = JObj (AList.update ''hooks'' (JObj []) ps)) \<and>
      (\<forall>xs ps. v = JArr xs ps \<and> \<not> has_hooks_object v \<longrightarrow>
         normalizeState v = JArr xs (AList.update ''hooks'' (JObj []) ps)) \<and>
      (has_hooks_object v \<longrightarrow> normalizeState v = v)) \<and>
   (\<not> faulty fs \<and> contents fs = Some t \<and> json_parse t = None \<longrightarrow>
      init state fs = (fs, Inl Syntax_error))"
proof (intro conjI impI allI)
  assume "\<not> faulty fs \<and> contents fs = None"
  then show "init empty_registry fs =
        (fs\<lparr>directory := True, contents := Some (Json_text empty_registry)\<rparr>,
         Inr empty_registry)"
    by (simp add: init_absent)
next
  assume "\<not> faulty fs \<and> contents fs = Some t \<and> json_parse t = Some v"
  then show "init state fs = (fs, Inr (normalizeState v))" by (simp add: init_parsed)
next
  show "has_hooks_object (normalizeState v)" by (rule has_hooks_object_normalizeState)
next
  assume "\<not> truthy v \<or> \<not> typeof_object v"
  then show "normalizeState v = JObj [(''hooks'', JObj [])]"
    using normalizeState_not_object [of v] by (simp add: empty_registry_def)
next
  fix ps assume "v = JObj ps \<and> \<not> has_hooks_object v"
  then show "normalizeState v = JObj (AList.update ''hooks'' (JObj []) ps)"
    using normalizeState_repairs [of v] by auto
next
  fix xs ps assume "v = JArr xs ps \<and> \<not> has_hooks_object v"
  then show "normalizeState v = JArr xs (AList.update ''hooks'' (JObj []) ps)"
    using normalizeState_repairs [of v] by auto
next
  assume "has_hooks_object v"
  then show "normalizeState v = v" by (rule normalizeState_shaped)
next
  assume "\<not> faulty fs \<and> contents fs = Some t \<and> json_parse t = None"
  then show "init state fs = (fs, Inl Syntax_error)" by (simp add: init_unparsed)
qed

theorem init_normalizes_witness:
  "init empty_registry \<lparr>directory = False, contents = None, faulty = False\<rparr> =
     (\<lparr>directory = True, contents = Some (Json_text empty_registry), faulty = False\<rparr>,
      Inr empty_registry) \<and>
   init empty_registry
     \<lparr>directory = True, contents = Some (Json_text (JObj [(''version'', JNum 1)])), faulty = False\<rparr> =
     (\<lparr>directory = True, contents = Some (Json_text (JObj [(''version'', JNum 1)])), faulty = False\<rparr>,
      Inr (JObj [(''version'', JNum 1), (''hooks'', JObj [])])) \<and>
   init empty_registry
     \<lparr>directory = True, contents = Some (Json_text (JObj [(''hooks'', JNum 5)])), faulty = False\<rparr> =
     (\<lparr>directory = True, contents = Some (Json_text (JObj [(''hooks'', JNum 5)])), faulty = False\<rparr>,
      Inr (JObj [(''hooks'', JObj [])])) \<and>
   init empty_registry \<lparr>directory = True, contents = Some (Json_text (JStr ''x'')), faulty = False\<rparr> =
     (\<lparr>directory = True, contents = Some (Json_text (JStr ''x'')), faulty = False\<rparr>,
      Inr (JObj [(''hooks'', JObj [])])) \<and>
   init empty_registry \<lparr>directory = True, contents = Some Empty_text, faulty = False\<rparr> =
     (\<lparr>directory = True, contents = Some Empty_text, faulty = False\<rparr>,
      Inr (JObj [(''hooks'', JObj [])]))"
  using
    init_normalizes [of "\<lparr>directory = False, contents = None, faulty = False\<rparr>" Unparseable JNull
      empty_registry]
    init_normalizes [of
      "\<lparr>directory = True, contents = Some (Json_text (JObj [(''version'', JNum 1)])), faulty = False\<rparr>"
      "Json_text (JObj [(''version'', JNum 1)])" "JObj [(''version'', JNum 1)]" empty_registry]
    init_normalizes [of
      "\<lparr>directory = True, contents = Some (Json_text (JObj [(''hooks'', JNum 5)])), faulty = False\<rparr>"
      "Json_text (JObj [(''hooks'', JNum 5)])" "JObj [(''hooks'', JNum 5)]" empty_registry]
    init_normalizes [of
      "\<lparr>directory = True, contents = Some (Json_text (JStr ''x'')), faulty = False\<rparr>"
      "Json_text (JStr ''x'')" "JStr ''x''" empty_registry]
    init_normalizes [of
      "\<lparr>directory = True, contents = Some Empty_text, faulty = False\<rparr>"
      "Empty_text" "JObj [(''hooks'', JObj [])]" empty_registry]
  by (simp add: json_parse_def has_hooks_object_def empty_registry_def)

subsection \<open>Identifiers\<close>

lemma length_sextets: "length (sextets bs) = (4 * length bs + 2) div 3"
  by (induction bs rule: sextets.induct) simp_all

lemma unat_byte_less: "unat (a :: byte) < 256"
  using unsigned_less [of a, where ?'a = nat] by simp

lemma sextet_bounds:
  fixes a b c :: nat
  assumes "a < 256" and "b < 256" and "c < 256"
  shows "a div 4 < 64" and "a mod 4 * 16 + b div 16 < 64"
    and "b mod 16 * 4 + c div 64 < 64" and "c mod 64 < 64" and "a mod 4 * 16 < 64"
    and "b mod 16 * 4 < 64"
proof -
  have m: "a mod 4 < 4" "b mod 16 < 16" by simp_all
  have d: "b div 16 < 16" "c div 64 < 4" "a div 4 < 64"
    using assms by (simp_all add: div_less_iff_less_mult)
  show "a div 4 < 64" by (rule d(3))
  show "a mod 4 * 16 + b div 16 < 64" using m(1) d(1) by linarith
  show "b mod 16 * 4 + c div 64 < 64" using m(2) d(2) by linarith
  show "c mod 64 < 64" by simp
  show "a mod 4 * 16 < 64" using m(1) by linarith
  show "b mod 16 * 4 < 64" using m(2) by linarith
qed

lemma sextets_less: "d \<in> set (sextets bs) \<Longrightarrow> d < 64"
proof (induction bs arbitrary: d rule: sextets.induct)
  case (1 a b c rest)
  note bd = sextet_bounds [OF unat_byte_less [of a] unat_byte_less [of b] unat_byte_less [of c]]
  from 1 bd show ?case by auto
next
  case (2 a b)
  note bd = sextet_bounds [OF unat_byte_less [of a] unat_byte_less [of b] unat_byte_less [of b]]
  from 2 bd show ?case by auto
next
  case (3 a)
  note bd = sextet_bounds [OF unat_byte_less [of a] unat_byte_less [of a] unat_byte_less [of a]]
  from 3 bd show ?case by auto
next
  case 4
  then show ?case by simp
qed

lemma length_base64url_alphabet: "length base64url_alphabet = 64"
  by (simp add: base64url_alphabet_def)

lemma length_base64url: "length (base64url bs) = (4 * length bs + 2) div 3"
  by (simp add: base64url_def length_sextets)

lemma set_base64url: "set (base64url bs) \<subseteq> set base64url_alphabet"
  using sextets_less by (auto simp: base64url_def length_base64url_alphabet)

lemma generateId_first_attempt:
  "generateId (Suc attempts) len src = Some (take len (base64url (map src [0..<len * 2])))"
proof -
  have "len \<le> length (base64url (map src [0..<len * 2]))"
    by (simp add: length_base64url)
  then show ?thesis by (simp add: Let_def)
qed

text \<open>
  Claim C10, amended. For every length, \<^verbatim>\<open>generateId\<close> returns at its first attempt,
  whatever the random bytes are: the retry branch is never taken, and the result has
  exactly \<open>len\<close> characters, all of the base64url alphabet. Nothing is said about two
  results being different.
\<close>

theorem generateId_total:
  "\<exists>ident. generateId (Suc attempts) len src = Some ident \<and>
      generateId 1 len src = Some ident \<and>
      ident = take len (base64url (map src [0..<len * 2])) \<and>
      length ident = len \<and> set ident \<subseteq> set base64url_alphabet"
proof -
  let ?ident = "take len (base64url (map src [0..<len * 2]))"
  have "length ?ident = len" by (simp add: length_base64url)
  moreover have "set ?ident \<subseteq> set base64url_alphabet"
    using set_base64url set_take_subset by fastforce
  moreover have "generateId (Suc attempts) len src = Some ?ident"
    by (rule generateId_first_attempt)
  moreover have "generateId 1 len src = Some ?ident"
    unfolding One_nat_def by (rule generateId_first_attempt)
  ultimately show ?thesis by blast
qed


text \<open>
  Claim C10 as stated fails in its last part: two draws of random bytes that differ
  give the same identifier of length 10, so two hooks can get the same id.
\<close>

theorem generateId_collision_counterexample:
  "zero_source 19 \<noteq> other_source 19 \<and>
   generateId 1 10 zero_source = Some ''AAAAAAAAAA'' \<and>
   generateId 1 10 other_source = Some ''AAAAAAAAAA''"
proof -
  have "zero_source 19 \<noteq> other_source 19"
    by (simp add: zero_source_def other_source_def)
  moreover have "generateId 1 10 zero_source = Some ''AAAAAAAAAA''" by code_simp
  moreover have "generateId 1 10 other_source = Some ''AAAAAAAAAA''" by code_simp
  ultimately show ?thesis by blast
qed

theorem generateId_total_witness:
  "generateId 3 10 zero_source = Some ''AAAAAAAAAA'' \<and> length ''AAAAAAAAAA'' = 10"
proof -
  from generateId_total [of 2 10 zero_source] obtain ident where
    "generateId (Suc 2) 10 zero_source = Some ident" and "generateId 1 10 zero_source = Some ident"
    by blast
  moreover have "generateId 1 10 zero_source = Some ''AAAAAAAAAA''" by code_simp
  ultimately show ?thesis by (simp add: numeral_3_eq_3)
qed

subsection \<open>Returned references\<close>

lemma registry_view_caller_assign_fresh:
  assumes "well_allocated hs" and "next_ref hs \<le> c"
  shows "registry_view (caller_assign c f hs) = registry_view hs"
proof -
  have "\<forall>p \<in> set (table hs). snd p \<noteq> c"
    using assms by (auto simp: well_allocated_def list_all_iff)
  then show ?thesis
    by (auto simp: registry_view_def caller_assign_def)
qed

lemma map_of_registry_view:
  "map_of (registry_view hs) s = map_option (objects hs) (map_of (table hs) s)"
  unfolding registry_view_def by (induction "table hs" arbitrary: hs) (auto simp: map_of_map)

lemma getHook_ref_copy:
  assumes "well_allocated hs" and "getHook_ref hs s = (hs1, Inr (Some (Object c)))"
  shows "registry_view (caller_assign c f hs1) = registry_view hs \<and>
         registry_view hs1 = registry_view hs \<and>
         map_of (registry_view hs) s = Some (objects hs1 c)"
proof (cases "property_read hs (table hs) s")
  case (Own r)
  then have r: "map_of (table hs) s = Some r"
    by (simp add: property_read_def split: option.splits if_splits)
  from assms(2) Own have "hs\<lparr>objects := (objects hs)(next_ref hs := objects hs r),
        next_ref := Suc (next_ref hs)\<rparr> = hs1 \<and> next_ref hs = c"
    by (auto simp: getHook_ref_def allocate_def)
  then have eqs: "hs\<lparr>objects := (objects hs)(next_ref hs := objects hs r),
        next_ref := Suc (next_ref hs)\<rparr> = hs1" "next_ref hs = c"
    by blast+
  have fresh: "\<forall>p \<in> set (table hs). snd p \<noteq> c"
    using assms(1) eqs(2) by (auto simp: well_allocated_def list_all_iff)
  have t: "table hs1 = table hs" and o: "objects hs1 = (objects hs)(c := objects hs r)"
    using eqs by auto
  have v1: "registry_view hs1 = registry_view hs"
    using fresh by (auto simp: registry_view_def t o)
  have v2: "registry_view (caller_assign c f hs1) = registry_view hs1"
    using fresh by (auto simp: registry_view_def caller_assign_def t)
  have "map_of (registry_view hs) s = Some (objects hs1 c)"
    using r by (simp add: map_of_registry_view o)
  with v1 v2 show ?thesis by simp
next
  case (Inherited m)
  with assms(2) show ?thesis by (simp add: getHook_ref_def split: if_splits)
next
  case Undefined
  with assms(2) show ?thesis by (simp add: getHook_ref_def)
qed

text \<open>The operations on references compute what the operations on values compute,
  and keep the heap well allocated.\<close>

lemma map_update_refs:
  "map (\<lambda>(k, r). (k, g r)) (AList.update s n t) =
   AList.update s (g n) (map (\<lambda>(k, r). (k, g r)) t)"
  by (induction t) auto

lemma property_read_registry_view:
  "property_read rt (registry_view hs) s =
     map_property (objects hs) (property_read rt (table hs) s)"
  by (simp add: property_read_def map_of_registry_view split: option.splits)

lemma property_read_same_runtime:
  "inherited a k = inherited b k \<Longrightarrow> property_read a ps k = property_read b ps k"
  by (auto simp: property_read_def split: option.splits)

lemma property_read_refines:
  assumes "hooks st = registry_view hs" and "inherited st s = inherited hs s"
  shows "property_read st (hooks st) s =
           map_property (objects hs) (property_read hs (table hs) s)"
proof -
  have "property_read st (hooks st) s = property_read hs (hooks st) s"
    by (rule property_read_same_runtime [OF assms(2)])
  then show ?thesis by (simp add: assms(1) property_read_registry_view)
qed

lemma snd_clear_inherited: "snd (clear_inherited m k rt) = (m \<noteq> Primitive_member)"
  by (cases m) (simp_all add: clear_inherited_def)

lemma clear_inherited_heap [simp]:
  "objects (fst (clear_inherited m k hs)) = objects hs"
  "table (fst (clear_inherited m k hs)) = table hs"
  "next_ref (fst (clear_inherited m k hs)) = next_ref hs"
  by (cases m; simp add: clear_inherited_def)+

lemma well_allocated_fresh:
  "well_allocated hs \<Longrightarrow> p \<in> set (table hs) \<Longrightarrow> snd p \<noteq> next_ref hs"
  by (auto simp: well_allocated_def list_all_iff)

lemma set_update_subset: "set (AList.update s n t) \<subseteq> insert (s, n) (set t)"
  by (induction t) auto

lemma distinct_refs_update:
  "distinct (map snd t) \<Longrightarrow> n \<notin> snd ` set t \<Longrightarrow> distinct (map snd (AList.update s n t))"
proof (induction t)
  case Nil
  then show ?case by simp
next
  case (Cons p ps)
  have a: "snd p \<notin> snd ` set ps" "snd p \<noteq> n" using Cons.prems by auto
  have "snd ` set (AList.update s n ps) \<subseteq> snd ` insert (s, n) (set ps)"
    by (rule image_mono) (rule set_update_subset)
  with a have "snd p \<notin> snd ` set (AList.update s n ps)" by auto
  with Cons show ?case by auto
qed

lemma registry_view_allocate:
  assumes "well_allocated hs"
  shows "registry_view (hs\<lparr>objects := (objects hs)(next_ref hs := h), next_ref := m,
            table := AList.update s (next_ref hs) (table hs)\<rparr>) =
         AList.update s h (registry_view hs)"
proof -
  let ?ob = "(objects hs)(next_ref hs := h)"
  have same: "map (\<lambda>(k, r). (k, ?ob r)) (table hs) =
        map (\<lambda>(k, r). (k, objects hs r)) (table hs)"
    using well_allocated_fresh [OF assms] by auto
  have "registry_view (hs\<lparr>objects := ?ob, next_ref := m,
            table := AList.update s (next_ref hs) (table hs)\<rparr>) =
        map (\<lambda>(k, r). (k, ?ob r)) (AList.update s (next_ref hs) (table hs))"
    by (simp add: registry_view_def)
  also have "\<dots> = AList.update s (?ob (next_ref hs)) (map (\<lambda>(k, r). (k, ?ob r)) (table hs))"
    by (rule map_update_refs)
  also have "\<dots> = AList.update s h (map (\<lambda>(k, r). (k, objects hs r)) (table hs))"
    by (simp only: same fun_upd_same)
  finally show ?thesis by (simp only: registry_view_def [of hs])
qed

lemma well_allocated_allocate:
  assumes "well_allocated hs"
  shows "well_allocated (hs\<lparr>objects := ob, next_ref := Suc (next_ref hs),
            table := AList.update s (next_ref hs) (table hs)\<rparr>)"
proof -
  have "list_all (\<lambda>(k, r). r < Suc (next_ref hs)) (AList.update s (next_ref hs) (table hs))"
    using assms set_update_subset [of s "next_ref hs" "table hs"]
    by (fastforce simp: well_allocated_def list_all_iff)
  moreover have "next_ref hs \<notin> snd ` set (table hs)"
    using well_allocated_fresh [OF assms] by force
  then have "distinct (map snd (AList.update s (next_ref hs) (table hs)))"
    using assms by (simp add: well_allocated_def distinct_refs_update)
  ultimately show ?thesis by (simp add: well_allocated_def)
qed

lemma createHook_ref_refines:
  assumes "well_allocated hs" and "hooks st = registry_view hs"
    and "inherited st s = inherited hs s"
  shows "registry_view (fst (createHook_ref hs s descr meta new_id now)) =
           hooks (fst (createHook st s descr meta new_id now)) \<and>
         map_sum id (objects (fst (createHook_ref hs s descr meta new_id now)))
           (snd (createHook_ref hs s descr meta new_id now)) =
         snd (createHook st s descr meta new_id now) \<and>
         well_allocated (fst (createHook_ref hs s descr meta new_id now))"
proof (cases "property_read hs (table hs) s")
  case (Own r)
  then have "property_read st (hooks st) s = Own (objects hs r)"
    by (simp add: property_read_refines [OF assms(2,3)])
  with Own assms show ?thesis by (simp add: createHook_ref_def createHook_def)
next
  case (Inherited m)
  then have "property_read st (hooks st) s = Inherited m"
    by (simp add: property_read_refines [OF assms(2,3)])
  with Inherited assms show ?thesis by (simp add: createHook_ref_def createHook_def)
next
  case Undefined
  then have "property_read st (hooks st) s = Undefined"
    by (simp add: property_read_refines [OF assms(2,3)])
  with Undefined assms(2) registry_view_allocate [OF assms(1)] well_allocated_allocate [OF assms(1)]
  show ?thesis
    by (simp add: createHook_ref_def createHook_def allocate_def Let_def)
qed

lemma registry_view_assign:
  assumes "distinct (map snd t)" and "map_of t s = Some r"
  shows "map (\<lambda>(k, r'). (k, (ob(r := h)) r')) t =
         AList.update s h (map (\<lambda>(k, r'). (k, ob r')) t)"
  using assms
proof (induction t)
  case Nil
  then show ?case by simp
next
  case (Cons p ps)
  show ?case
  proof (cases "fst p = s")
    case True
    with Cons.prems have pr: "snd p = r" by (cases p) simp
    from Cons.prems(1) have "snd p \<notin> snd ` set ps" by simp
    then have "\<forall>q \<in> set ps. snd q \<noteq> r" unfolding pr by blast
    then have "map (\<lambda>(k, r'). (k, (ob(r := h)) r')) ps = map (\<lambda>(k, r'). (k, ob r')) ps"
      by auto
    then show ?thesis using True pr by (cases p) simp
  next
    case False
    with Cons.prems have m: "map_of ps s = Some r" by (cases p) (simp split: if_splits)
    then have "(s, r) \<in> set ps" by (rule map_of_SomeD)
    with Cons.prems have "snd p \<noteq> r" by (cases p) force
    with Cons.IH [OF _ m] Cons.prems False show ?thesis by (cases p) simp
  qed
qed

lemma clearLogs_ref_refines:
  assumes "well_allocated hs" and "hooks st = registry_view hs"
    and "inherited st s = inherited hs s"
  shows "registry_view (fst (clearLogs_ref hs s)) = hooks (fst (clearLogs st s)) \<and>
         map_sum id (\<lambda>x. case x of Object r \<Rightarrow> Record (objects (fst (clearLogs_ref hs s)) r)
                               | Foreign_object \<Rightarrow> Foreign)
           (snd (clearLogs_ref hs s)) = snd (clearLogs st s)"
proof (cases "property_read hs (table hs) s")
  case (Own r)
  then have p: "property_read st (hooks st) s = Own (objects hs r)"
    by (simp add: property_read_refines [OF assms(2,3)])
  from Own have r: "map_of (table hs) s = Some r"
    by (simp add: property_read_Own_iff)
  from assms(1) have d: "distinct (map snd (table hs))" by (simp add: well_allocated_def)
  from Own p assms(2) registry_view_assign [OF d r] show ?thesis
    by (simp add: clearLogs_ref_def clearLogs_def Let_def registry_view_def)
next
  case (Inherited m)
  then have p: "property_read st (hooks st) s = Inherited m"
    by (simp add: property_read_refines [OF assms(2,3)])
  have v: "registry_view (fst (clear_inherited m s hs)) = registry_view hs"
    by (simp add: registry_view_def)
  have h: "hooks (fst (clear_inherited m s st)) = hooks st" by simp
  show ?thesis
    using Inherited p v h assms(2) snd_clear_inherited [of m s hs]
      snd_clear_inherited [of m s st]
    by (cases "clear_inherited m s hs"; cases "clear_inherited m s st")
       (auto simp: clearLogs_ref_def clearLogs_def)
next
  case Undefined
  then have "property_read st (hooks st) s = Undefined"
    by (simp add: property_read_refines [OF assms(2,3)])
  with Undefined assms show ?thesis by (simp add: clearLogs_ref_def clearLogs_def)
qed

lemma getHook_ref_refines:
  assumes "hooks st = registry_view hs" and "inherited st s = inherited hs s"
  shows "map_sum id (map_option (\<lambda>x. case x of Object r \<Rightarrow> Record (objects (fst (getHook_ref hs s)) r)
                               | Foreign_object \<Rightarrow> Foreign))
           (snd (getHook_ref hs s)) = getHook st s"
  by (cases "property_read hs (table hs) s")
     (simp_all add: getHook_ref_def getHook_def allocate_def property_read_refines [OF assms])

text \<open>
  Claim C8, at a fresh store: \<^verbatim>\<open>createHook\<close> returns the reference of the object it has
  put into the registry, so an assignment by the caller to \<^verbatim>\<open>hits\<close> of the returned
  object changes what the registry holds, and \<^verbatim>\<open>clearLogs\<close> returns that same reference.
  \<^verbatim>\<open>getHook\<close> does return a copy (\<open>getHook_ref_copy\<close>).
\<close>

theorem createHook_returns_stored_object:
  "createHook_ref empty_heap ''email1'' [] (JObj []) ''AAAAAAAAAA'' 0 =
     (empty_heap\<lparr>objects := (objects empty_heap)(0 := sample_hook ''email1'' []),
                 table := [(''email1'', 0)], next_ref := 1\<rparr>, Inr 0) \<and>
   registry_view (caller_assign 0 (set_hits 7)
       (fst (createHook_ref empty_heap ''email1'' [] (JObj []) ''AAAAAAAAAA'' 0))) =
     [(''email1'', (sample_hook ''email1'' [])\<lparr>hits := 7\<rparr>)] \<and>
   snd (clearLogs_ref
       (fst (createHook_ref empty_heap ''email1'' [] (JObj []) ''AAAAAAAAAA'' 0)) ''email1'') =
     Inr (Object 0)"
  by (simp add: createHook_ref_def allocate_def property_read_def inherited_def
      object_prototype_keys_def empty_heap_def sample_hook_def registry_view_def
      caller_assign_def set_hits_def clearLogs_ref_def)

end
